theory Spec2Isabelle
  imports Main "HOL-Library.Sublist"
begin

section \<open>Values of the runtime\<close>

text \<open>
  The program handles the values that \<^verbatim>\<open>JSON.parse\<close> produces and that arrive, already
  decoded, from the tool transport: null, booleans, numbers, strings, arrays and objects.
  An object is an association list with distinct keys, in property order. Numbers are
  integers here (the program only tests them for zero and counts records); strings are
  lists of characters, one per code unit, restricted to the 8-bit range.
  \<^verbatim>\<open>undefined\<close> is the \<open>None\<close> of a \<open>json option\<close>.
\<close>

datatype json =
    JNull
  | JBool bool
  | JNum int
  | JStr string
  | JArr "json list"
  | JObj "(string \<times> json) list"

text \<open>The failures of the program, one constructor per kind of the error taxonomy. Each
  \<^verbatim>\<open>throw new Error("...")\<close> of the source maps to the kind named beside it in the
  definitions below. \<open>TypeError\<close> is the runtime's own failure on a property read of
  \<^verbatim>\<open>null\<close>; \<open>IOError\<close> is a rejected file-system call.\<close>

datatype error =
    PathTraversal
  | UnsupportedExtension
  | NotFound
  | MalformedContent
  | InvalidDocument
  | InvalidWrappedDocument
  | MissingBlock
  | DuplicateBlock
  | EmptyBlock
  | NoPages
  | ShapeNotFound
  | AlreadyExists
  | TypeError
  | IOError

text \<open>Truthiness (\<^verbatim>\<open>!v\<close> is its negation) and \<^verbatim>\<open>typeof\<close>.\<close>

fun truthy :: "json \<Rightarrow> bool" where
  "truthy JNull = False"
| "truthy (JBool b) = b"
| "truthy (JNum n) = (n \<noteq> 0)"
| "truthy (JStr s) = (s \<noteq> [])"
| "truthy (JArr xs) = True"
| "truthy (JObj kvs) = True"

fun truthy_opt :: "json option \<Rightarrow> bool" where
  "truthy_opt None = False"
| "truthy_opt (Some v) = truthy v"

fun typeof :: "json \<Rightarrow> string" where
  "typeof JNull = ''object''"
| "typeof (JBool b) = ''boolean''"
| "typeof (JNum n) = ''number''"
| "typeof (JStr s) = ''string''"
| "typeof (JArr xs) = ''object''"
| "typeof (JObj kvs) = ''object''"

fun typeof_opt :: "json option \<Rightarrow> string" where
  "typeof_opt None = ''undefined''"
| "typeof_opt (Some v) = typeof v"

text \<open>
  A property read \<^verbatim>\<open>v.k\<close> on a value that is not \<^verbatim>\<open>null\<close>. The keys the program
  reads (\<^verbatim>\<open>tldrawFileFormatVersion\<close>, \<^verbatim>\<open>schema\<close>, \<^verbatim>\<open>records\<close>, \<^verbatim>\<open>raw\<close>, \<^verbatim>\<open>id\<close>,
  \<^verbatim>\<open>typeName\<close>, \<^verbatim>\<open>props\<close>, \<^verbatim>\<open>type\<close>, \<^verbatim>\<open>x\<close>, \<^verbatim>\<open>y\<close>, \<^verbatim>\<open>rotation\<close>) are own
  properties of objects only, so the read gives \<^verbatim>\<open>undefined\<close> on an array, a string, a
  number or a boolean. A read on \<^verbatim>\<open>null\<close> raises; the one place where the program can
  meet it, the record loop of \<open>validateTldrawFile\<close>, models that explicitly.
\<close>

fun field :: "json \<Rightarrow> string \<Rightarrow> json option" where
  "field (JObj kvs) k = map_of kvs k"
| "field v k = None"

text \<open>\<^verbatim>\<open>k in v\<close> for the same keys.\<close>

fun has_key :: "string \<Rightarrow> json \<Rightarrow> bool" where
  "has_key k (JObj kvs) = (k \<in> set (map fst kvs))"
| "has_key k v = False"

text \<open>Defining the own property \<open>k\<close> of an object, as an object literal, an object
  spread and \<^verbatim>\<open>JSON.parse\<close> do: an existing property keeps its place, a new one goes
  last.\<close>

fun obj_set :: "string \<Rightarrow> json \<Rightarrow> (string \<times> json) list \<Rightarrow> (string \<times> json) list" where
  "obj_set k v [] = [(k, v)]"
| "obj_set k v ((k', v') # kvs) =
     (if k' = k then (k, v) # kvs else (k', v') # obj_set k v kvs)"

section \<open>Strings\<close>

text \<open>\<^verbatim>\<open>s.endsWith(t)\<close> and \<^verbatim>\<open>s.startsWith(t)\<close>.\<close>

definition endsWith :: "string \<Rightarrow> string \<Rightarrow> bool" where
  "endsWith s t = suffix t s"

definition startsWith :: "string \<Rightarrow> string \<Rightarrow> bool" where
  "startsWith s t = prefix t s"

text \<open>
  \<^verbatim>\<open>s.indexOf(pat, fromIndex)\<close>: the least index at or after \<open>fromIndex\<close> where \<open>pat\<close>
  stands in \<open>s\<close>; \<open>None\<close> is the \<^verbatim>\<open>-1\<close> of the source. \<open>find_from pat cs i\<close> scans
  the rest \<open>cs\<close> of the string, which begins at index \<open>i\<close>.
\<close>

fun find_from :: "string \<Rightarrow> string \<Rightarrow> nat \<Rightarrow> nat option" where
  "find_from pat [] i = (if pat = [] then Some i else None)"
| "find_from pat (c # cs) i =
     (if prefix pat (c # cs) then Some i else find_from pat cs (Suc i))"

definition indexOf :: "string \<Rightarrow> string \<Rightarrow> nat \<Rightarrow> nat option" where
  "indexOf s pat fromIndex =
     (let k = min fromIndex (length s) in find_from pat (drop k s) k)"

text \<open>\<^verbatim>\<open>s.slice(a, b)\<close> and \<^verbatim>\<open>s.slice(a)\<close> for indices that are not negative.\<close>

definition slice :: "string \<Rightarrow> nat \<Rightarrow> nat \<Rightarrow> string" where
  "slice s a b = take (b - a) (drop a s)"

definition slice_from :: "string \<Rightarrow> nat \<Rightarrow> string" where
  "slice_from s a = drop a s"

text \<open>\<^verbatim>\<open>s.trim()\<close> removes white space and line terminators at both ends; in the 8-bit
  range these are tab, line feed, vertical tab, form feed, carriage return, space and the
  no-break space.\<close>

definition isWhiteSpace :: "char \<Rightarrow> bool" where
  "isWhiteSpace c =
     (c \<in> set [CHR 0x09, CHR 0x0A, CHR 0x0B, CHR 0x0C, CHR 0x0D, CHR 0x20, CHR 0xA0])"

definition trim :: "string \<Rightarrow> string" where
  "trim s = rev (dropWhile isWhiteSpace (rev (dropWhile isWhiteSpace s)))"

text \<open>\<^verbatim>\<open>s.lastIndexOf('/')\<close> for a single character.\<close>

definition lastIndexOf :: "string \<Rightarrow> char \<Rightarrow> nat option" where
  "lastIndexOf s c =
     (if c \<in> set s then Some (length s - 1 - length (takeWhile (\<lambda>x. x \<noteq> c) (rev s)))
      else None)"

text \<open>A natural number in decimal, as a template literal prints it.\<close>

fun digits :: "nat \<Rightarrow> string" where
  "digits n =
     (if n < 10 then [char_of (48 + n)]
      else digits (n div 10) @ [char_of (48 + n mod 10)])"

declare digits.simps [simp del]

section \<open>The platform\<close>

text \<open>
  What the program takes from its runtime and its configuration: the root directory
  \<^verbatim>\<open>TLDRAW_DIR\<close>, the functions \<^verbatim>\<open>resolve\<close>, \<^verbatim>\<open>relative\<close> and \<^verbatim>\<open>isAbsolute\<close> of the
  \<^verbatim>\<open>path\<close> module, and \<^verbatim>\<open>JSON.parse\<close> (\<open>None\<close> when it throws) and
  \<^verbatim>\<open>JSON.stringify(v, null, 2)\<close>. The program's functions take the platform as their
  first argument, so that what is proved of them holds for every platform.
\<close>

record platform =
  TLDRAW_DIR :: string
  path_resolve :: "string list \<Rightarrow> string"
  path_relative :: "string \<Rightarrow> string \<Rightarrow> string"
  path_isAbsolute :: "string \<Rightarrow> bool"
  JSON_parse :: "string \<Rightarrow> json option"
  JSON_stringify :: "json \<Rightarrow> string"

text \<open>
  The file system: what stands at each path. \<^verbatim>\<open>readFile\<close> is rejected on a missing
  path and on a directory, \<^verbatim>\<open>writeFile\<close> on a directory, \<^verbatim>\<open>mkdir\<close> on the empty path.
  The entries are independent of each other: that a file needs its parent directory is
  not part of the model.
\<close>

datatype node = File string | Dir

type_synonym filesystem = "string \<Rightarrow> node option"

definition existsSync :: "filesystem \<Rightarrow> string \<Rightarrow> bool" where
  "existsSync fs p = (fs p \<noteq> None)"

definition readFile :: "filesystem \<Rightarrow> string \<Rightarrow> error + string" where
  "readFile fs p = (case fs p of Some (File c) \<Rightarrow> Inr c | _ \<Rightarrow> Inl IOError)"

definition writeFile :: "filesystem \<Rightarrow> string \<Rightarrow> string \<Rightarrow> error + filesystem" where
  "writeFile fs p c = (case fs p of Some Dir \<Rightarrow> Inl IOError | _ \<Rightarrow> Inr (fs(p \<mapsto> File c)))"

definition mkdir :: "filesystem \<Rightarrow> string \<Rightarrow> error + filesystem" where
  "mkdir fs p = (if p = [] then Inl IOError else Inr (fs(p \<mapsto> Dir)))"

definition ensureDir :: "filesystem \<Rightarrow> string \<Rightarrow> error + filesystem" where
  "ensureDir fs dirPath = (if \<not> existsSync fs dirPath then mkdir fs dirPath else Inr fs)"

section \<open>The path sandbox\<close>

text \<open>The failure is \<^verbatim>\<open>Path traversal attempt blocked\<close>.\<close>

definition securePath :: "platform \<Rightarrow> string \<Rightarrow> error + string" where
  "securePath P inputPath =
     (let baseDir = path_resolve P [TLDRAW_DIR P];
          targetPath = (if path_isAbsolute P inputPath
                        then path_resolve P [inputPath]
                        else path_resolve P [baseDir, inputPath])
      in if \<not> path_isAbsolute P inputPath then
           (let relativePath = path_relative P baseDir targetPath
            in if startsWith relativePath ''..'' \<or> path_isAbsolute P relativePath
               then Inl PathTraversal
               else Inr targetPath)
         else Inr targetPath)"

section \<open>The document validator\<close>

text \<open>
  \<^verbatim>\<open>for (const record of file.records) { if (!record.id || !record.typeName) throw ... }\<close>
  The loop stops at the first record that fails. On a \<^verbatim>\<open>null\<close> element the read
  \<^verbatim>\<open>record.id\<close> itself raises a \<open>TypeError\<close>.
\<close>

fun validateRecords :: "json list \<Rightarrow> error option" where
  "validateRecords [] = None"
| "validateRecords (r # rs) =
     (if r = JNull then Some TypeError
      else if \<not> truthy_opt (field r ''id'') \<or> \<not> truthy_opt (field r ''typeName'')
        then Some InvalidDocument
      else validateRecords rs)"

definition validateTldrawFile :: "json \<Rightarrow> error + json" where
  "validateTldrawFile data =
     (if \<not> truthy data \<or> typeof data \<noteq> ''object'' then Inl InvalidDocument
      else if typeof_opt (field data ''tldrawFileFormatVersion'') \<noteq> ''number''
        then Inl InvalidDocument
      else if \<not> truthy_opt (field data ''schema'')
              \<or> typeof_opt (field data ''schema'') \<noteq> ''object''
        then Inl InvalidDocument
      else (case field data ''records'' of
              Some (JArr rs) \<Rightarrow>
                (case validateRecords rs of
                   Some e \<Rightarrow> Inl e
                 | None \<Rightarrow> Inr data)
            | _ \<Rightarrow> Inl InvalidDocument))"

section \<open>The storage codec\<close>

definition MARKDOWN_TLDRAW_START_MARKER :: string where
  "MARKDOWN_TLDRAW_START_MARKER = ''!!!_START_OF_TLDRAW_DATA__DO_NOT_CHANGE_THIS_PHRASE_!!!''"

definition MARKDOWN_TLDRAW_END_MARKER :: string where
  "MARKDOWN_TLDRAW_END_MARKER = ''!!!_END_OF_TLDRAW_DATA__DO_NOT_CHANGE_THIS_PHRASE_!!!''"

definition isReadableTldrawPath :: "string \<Rightarrow> bool" where
  "isReadableTldrawPath path = (endsWith path ''.tldr'' \<or> endsWith path ''.md'')"

text \<open>The failure is \<^verbatim>\<open>Invalid JSON in <path>\<close>.\<close>

definition parseJsonContent :: "platform \<Rightarrow> string \<Rightarrow> error + json" where
  "parseJsonContent P content =
     (case JSON_parse P content of
        None \<Rightarrow> Inl MalformedContent
      | Some v \<Rightarrow> Inr v)"

record MarkdownTldrawBlock =
  jsonStart :: nat
  jsonEnd :: nat
  jsonText :: string

text \<open>
  The failures are, in the order of the source: \<^verbatim>\<open>No embedded tldraw block found
  (missing start marker)\<close>, \<^verbatim>\<open>Multiple embedded tldraw start markers\<close>, \<^verbatim>\<open>No embedded
  tldraw block found (missing end marker)\<close>, \<^verbatim>\<open>Multiple embedded tldraw end markers\<close>,
  \<^verbatim>\<open>Embedded tldraw block is empty\<close>.
\<close>

definition locateMarkdownTldrawBlock :: "string \<Rightarrow> error + MarkdownTldrawBlock" where
  "locateMarkdownTldrawBlock markdown =
     (case indexOf markdown MARKDOWN_TLDRAW_START_MARKER 0 of
        None \<Rightarrow> Inl MissingBlock
      | Some startIndex \<Rightarrow>
     (case indexOf markdown MARKDOWN_TLDRAW_START_MARKER
             (startIndex + length MARKDOWN_TLDRAW_START_MARKER) of
        Some duplicateStartIndex \<Rightarrow> Inl DuplicateBlock
      | None \<Rightarrow>
     (case indexOf markdown MARKDOWN_TLDRAW_END_MARKER
             (startIndex + length MARKDOWN_TLDRAW_START_MARKER) of
        None \<Rightarrow> Inl MissingBlock
      | Some endIndex \<Rightarrow>
     (case indexOf markdown MARKDOWN_TLDRAW_END_MARKER
             (endIndex + length MARKDOWN_TLDRAW_END_MARKER) of
        Some duplicateEndIndex \<Rightarrow> Inl DuplicateBlock
      | None \<Rightarrow>
          (let jsonStart = startIndex + length MARKDOWN_TLDRAW_START_MARKER;
               jsonEnd = endIndex;
               jsonText = trim (slice markdown jsonStart jsonEnd)
           in if jsonText = [] then Inl EmptyBlock
              else Inr \<lparr>jsonStart = jsonStart, jsonEnd = jsonEnd, jsonText = jsonText\<rparr>)))))"

text \<open>
  The result is the document and, when the payload has a \<^verbatim>\<open>raw\<close> property, the payload
  itself as the wrapped container. \<^verbatim>\<open>"raw" in payload\<close> holds exactly when the read
  \<open>field data ''raw''\<close> finds a value. The failures are \<^verbatim>\<open>Invalid tldraw file: not an
  object\<close> and \<^verbatim>\<open>Invalid wrapped tldraw file: raw must be an object\<close>.
\<close>

definition normalizeTldrawPayload :: "json \<Rightarrow> error + (json \<times> json option)" where
  "normalizeTldrawPayload data =
     (if \<not> truthy data \<or> typeof data \<noteq> ''object'' then Inl InvalidDocument
      else (case field data ''raw'' of
              Some raw \<Rightarrow>
                (if \<not> truthy raw \<or> typeof raw \<noteq> ''object'' then Inl InvalidWrappedDocument
                 else (case validateTldrawFile raw of
                         Inl e \<Rightarrow> Inl e
                       | Inr file \<Rightarrow> Inr (file, Some data)))
            | None \<Rightarrow>
                (case validateTldrawFile data of
                   Inl e \<Rightarrow> Inl e
                 | Inr file \<Rightarrow> Inr (file, None))))"

datatype TldrawStorageFormat = PlainJson | WrappedJson | EmbeddedMarkdown

record ParsedTldrawContent =
  parsed_file :: json
  storageFormat :: TldrawStorageFormat
  wrappedContainer :: "json option"

text \<open>The failures of its own are \<^verbatim>\<open>File must have .tldr or .md extension\<close> and
  \<^verbatim>\<open>File not found\<close>.\<close>

definition parseTldrawContent ::
  "platform \<Rightarrow> filesystem \<Rightarrow> string \<Rightarrow> error + ParsedTldrawContent" where
  "parseTldrawContent P fs path =
     (case securePath P path of
        Inl e \<Rightarrow> Inl e
      | Inr filepath \<Rightarrow>
     (if \<not> isReadableTldrawPath filepath then Inl UnsupportedExtension
      else if \<not> existsSync fs filepath then Inl NotFound
      else
     (case readFile fs filepath of
        Inl e \<Rightarrow> Inl e
      | Inr content \<Rightarrow>
     (if endsWith filepath ''.md'' then
        (case locateMarkdownTldrawBlock content of
           Inl e \<Rightarrow> Inl e
         | Inr block \<Rightarrow>
        (case parseJsonContent P (jsonText block) of
           Inl e \<Rightarrow> Inl e
         | Inr data \<Rightarrow>
        (case normalizeTldrawPayload data of
           Inl e \<Rightarrow> Inl e
         | Inr (f, wc) \<Rightarrow>
             Inr \<lparr>parsed_file = f, storageFormat = EmbeddedMarkdown, wrappedContainer = wc\<rparr>)))
      else
        (case parseJsonContent P content of
           Inl e \<Rightarrow> Inl e
         | Inr data \<Rightarrow>
        (case normalizeTldrawPayload data of
           Inl e \<Rightarrow> Inl e
         | Inr (f, wc) \<Rightarrow>
             Inr \<lparr>parsed_file = f,
                  storageFormat = (if wc \<noteq> None then WrappedJson else PlainJson),
                  wrappedContainer = wc\<rparr>))))))"

text \<open>
  The \<^verbatim>\<open>try\<close> block of the source catches the failure of the read and of the parse:
  both give \<^verbatim>\<open>undefined\<close>, as does content that is not an object with a \<^verbatim>\<open>raw\<close>
  property of type object.
\<close>

definition getWrappedContainerForTldraw ::
  "platform \<Rightarrow> filesystem \<Rightarrow> string \<Rightarrow> json option" where
  "getWrappedContainerForTldraw P fs filepath =
     (if \<not> existsSync fs filepath then None
      else
     (case readFile fs filepath of
        Inl e \<Rightarrow> None
      | Inr existingContent \<Rightarrow>
     (case parseJsonContent P existingContent of
        Inl e \<Rightarrow> None
      | Inr existingData \<Rightarrow>
          (if truthy existingData \<and> typeof existingData = ''object''
              \<and> has_key ''raw'' existingData
              \<and> typeof_opt (field existingData ''raw'') = ''object''
           then Some existingData
           else None))))"

definition tldrawRead :: "platform \<Rightarrow> filesystem \<Rightarrow> string \<Rightarrow> error + json" where
  "tldrawRead P fs path =
     (case parseTldrawContent P fs path of
        Inl e \<Rightarrow> Inl e
      | Inr parsed \<Rightarrow> Inr (parsed_file parsed))"

text \<open>
  The own enumerable properties that an object spread \<^verbatim>\<open>{...v}\<close> copies: the properties
  of an object, the elements of an array and the characters of a string under their
  indices, nothing for the other values. Property order is insertion order (the runtime
  puts keys that are array indices first; the two agree on every object without such
  keys).
\<close>

fun spread :: "json \<Rightarrow> (string \<times> json) list" where
  "spread (JObj kvs) = kvs"
| "spread (JArr xs) = zip (map digits [0..<length xs]) xs"
| "spread (JStr s) = zip (map digits [0..<length s]) (map (\<lambda>c. JStr [c]) s)"
| "spread v = []"

text \<open>\<^verbatim>\<open>{...a, ...b}\<close>\<close>

definition spread2 :: "json \<Rightarrow> json \<Rightarrow> json" where
  "spread2 a b = JObj (fold (\<lambda>(k, v) acc. obj_set k v acc) (spread b) (spread a))"

text \<open>\<^verbatim>\<open>wrappedContainer ? { ...wrappedContainer, raw: file } : file\<close>\<close>

definition outputContent :: "json option \<Rightarrow> json \<Rightarrow> json" where
  "outputContent wc f =
     (case wc of
        Some c \<Rightarrow> JObj (obj_set ''raw'' f (spread c))
      | None \<Rightarrow> f)"

text \<open>\<^verbatim>\<open>a || b\<close> on containers: an object is truthy, \<^verbatim>\<open>undefined\<close> is not.\<close>

definition orElse :: "json option \<Rightarrow> json option \<Rightarrow> json option" where
  "orElse a b = (case a of Some c \<Rightarrow> Some c | None \<Rightarrow> b)"

text \<open>The content of a write is a document object or its JSON text.\<close>

datatype content = Text string | Object json

text \<open>
  The result is the confirmation or the failure, and the file system as the call leaves
  it. The failures of its own are \<^verbatim>\<open>File must have .tldr or .md extension\<close> and, for
  an embedded document, \<^verbatim>\<open>File not found\<close>.
\<close>

definition tldrawWrite ::
  "platform \<Rightarrow> filesystem \<Rightarrow> string \<Rightarrow> content \<Rightarrow> (error + string) \<times> filesystem" where
  "tldrawWrite P fs path content =
     (case securePath P path of
        Inl e \<Rightarrow> (Inl e, fs)
      | Inr filepath \<Rightarrow>
     (if \<not> isReadableTldrawPath filepath then (Inl UnsupportedExtension, fs)
      else
     (case (case content of Text s \<Rightarrow> parseJsonContent P s | Object v \<Rightarrow> Inr v) of
        Inl e \<Rightarrow> (Inl e, fs)
      | Inr parsedInput \<Rightarrow>
     (case normalizeTldrawPayload parsedInput of
        Inl e \<Rightarrow> (Inl e, fs)
      | Inr (f, inputWrappedContainer) \<Rightarrow>
     (if endsWith filepath ''.md'' then
        (if \<not> existsSync fs filepath then (Inl NotFound, fs)
         else
        (case readFile fs filepath of
           Inl e \<Rightarrow> (Inl e, fs)
         | Inr markdownContent \<Rightarrow>
        (case locateMarkdownTldrawBlock markdownContent of
           Inl e \<Rightarrow> (Inl e, fs)
         | Inr block \<Rightarrow>
        (case parseJsonContent P (jsonText block) of
           Inl e \<Rightarrow> (Inl e, fs)
         | Inr existingData \<Rightarrow>
        (case normalizeTldrawPayload existingData of
           Inl e \<Rightarrow> (Inl e, fs)
         | Inr (existingFile, existingWrappedContainer) \<Rightarrow>
             (let wc = orElse existingWrappedContainer inputWrappedContainer;
                  updatedMarkdown =
                    slice markdownContent 0 (jsonStart block) @ [CHR 0x0A]
                    @ JSON_stringify P (outputContent wc f) @ [CHR 0x0A]
                    @ slice_from markdownContent (jsonEnd block)
              in (case writeFile fs filepath updatedMarkdown of
                    Inl e \<Rightarrow> (Inl e, fs)
                  | Inr fs' \<Rightarrow> (Inr (''Successfully wrote: '' @ path), fs'))))))))
      else
        (let dir = (case lastIndexOf filepath CHR ''/'' of
                      Some i \<Rightarrow> slice filepath 0 i
                    | None \<Rightarrow> [])
         in (case ensureDir fs dir of
               Inl e \<Rightarrow> (Inl e, fs)
             | Inr fs1 \<Rightarrow>
             (let existingWrappedContainer = getWrappedContainerForTldraw P fs1 filepath;
                  wc = orElse existingWrappedContainer inputWrappedContainer
              in (case writeFile fs1 filepath (JSON_stringify P (outputContent wc f)) of
                    Inl e \<Rightarrow> (Inl e, fs1)
                  | Inr fs' \<Rightarrow> (Inr (''Successfully wrote: '' @ path), fs'))))))))))"

section \<open>The shape repository\<close>

text \<open>
  Each operation of the source reads the document (\<open>tldrawRead\<close>), changes it in memory
  and writes it back (\<open>tldrawWrite\<close>). The change in memory is a function of its own
  here (\<open>addShape\<close>, \<open>updateShape\<close>, \<open>deleteShape\<close>: the operations on a decoded
  document), and the operation of the source is the composition of the three steps.
\<close>

text \<open>\<^verbatim>\<open>a || b\<close>\<close>

definition js_or :: "json option \<Rightarrow> json \<Rightarrow> json" where
  "js_or a b = (case a of Some v \<Rightarrow> (if truthy v then v else b) | None \<Rightarrow> b)"

text \<open>The document with its \<^verbatim>\<open>records\<close> property replaced. The program never assigns
  to the property: it changes the array in place (\<^verbatim>\<open>push\<close>, an element of it) or, in
  \<^verbatim>\<open>tldrawDeleteShape\<close>, assigns \<^verbatim>\<open>file.records\<close>, an own property of every document
  that passed the validator. \<open>set_field\<close> is used with this one property name.\<close>

fun set_field :: "json \<Rightarrow> string \<Rightarrow> json \<Rightarrow> json" where
  "set_field (JObj kvs) k v = JObj (obj_set k v kvs)"
| "set_field w k v = w"

text \<open>\<^verbatim>\<open>xs.findIndex(p)\<close>, with \<open>None\<close> for \<^verbatim>\<open>-1\<close>.\<close>

fun findIndex :: "('a \<Rightarrow> bool) \<Rightarrow> 'a list \<Rightarrow> nat option" where
  "findIndex p [] = None"
| "findIndex p (x # xs) =
     (if p x then Some 0 else map_option Suc (findIndex p xs))"

definition defaultProps :: json where
  "defaultProps = JObj
     [(''w'', JNum 100), (''h'', JNum 100), (''geo'', JStr ''rectangle''),
      (''color'', JStr ''black''), (''labelColor'', JStr ''black''),
      (''fill'', JStr ''none''), (''dash'', JStr ''draw''), (''size'', JStr ''m''),
      (''font'', JStr ''draw''), (''align'', JStr ''middle''),
      (''verticalAlign'', JStr ''middle''), (''growY'', JNum 0), (''url'', JStr []),
      (''scale'', JNum 1),
      (''richText'', JObj [(''type'', JStr ''doc''), (''content'', JArr [])])]"

text \<open>
  The memory part of \<^verbatim>\<open>tldrawAddShape\<close>. \<open>uuid\<close> is the value that
  \<^verbatim>\<open>crypto.randomUUID()\<close> returns in this call. A method call on a \<^verbatim>\<open>records\<close>
  property that is not an array raises a \<open>TypeError\<close>; the failure of its own is
  \<^verbatim>\<open>No pages found in file\<close>. The result is the identity of the new shape and the
  document after \<^verbatim>\<open>file.records.push(newShape)\<close>.
\<close>

definition addShape ::
  "json \<Rightarrow> json \<Rightarrow> string option \<Rightarrow> string \<Rightarrow> error + (json \<times> json)" where
  "addShape f shape pageId uuid =
     (case field f ''records'' of
        Some (JArr rs) \<Rightarrow>
          (case (if \<not> truthy_opt (map_option JStr pageId)
                 then (case find (\<lambda>r. field r ''typeName'' = Some (JStr ''page'')) rs of
                         None \<Rightarrow> Inl NoPages
                       | Some firstPage \<Rightarrow> Inr (field firstPage ''id''))
                 else Inr (map_option JStr pageId)) of
             Inl e \<Rightarrow> Inl e
           | Inr targetPageId \<Rightarrow>
               (let shapeId = js_or (field shape ''id'') (JStr (''shape:'' @ slice uuid 0 8));
                    newShape = JObj
                      ([(''id'', shapeId),
                        (''typeName'', JStr ''shape''),
                        (''type'', js_or (field shape ''type'') (JStr ''geo'')),
                        (''x'', js_or (field shape ''x'') (JNum 0)),
                        (''y'', js_or (field shape ''y'') (JNum 0)),
                        (''rotation'', js_or (field shape ''rotation'') (JNum 0)),
                        (''isLocked'', JBool False),
                        (''opacity'', JNum 1)]
                       @ (case targetPageId of
                            Some pid \<Rightarrow> [(''parentId'', pid)]
                          | None \<Rightarrow> [])
                       @ [(''index'', JStr (''a'' @ digits
                             (length (filter (\<lambda>r. field r ''typeName'' = Some (JStr ''shape'')) rs)
                              + 1))),
                          (''meta'', JObj []),
                          (''props'', js_or (field shape ''props'') defaultProps)])
                in Inr (shapeId, set_field f ''records'' (JArr (rs @ [newShape])))))
      | _ \<Rightarrow> Inl TypeError)"

text \<open>
  The update loop assigns under keys that the caller chooses, so the record is an object
  with a prototype here: its own properties, and the prototype that a read or an
  assignment falls back to. Every object that \<^verbatim>\<open>JSON.parse\<close> builds starts with
  \<^verbatim>\<open>Object.prototype\<close>; an assignment to \<^verbatim>\<open>__proto__\<close> can replace it by \<^verbatim>\<open>null\<close> or by
  an object or array of the updates (whose own prototype is \<^verbatim>\<open>Object.prototype\<close>, or
  \<^verbatim>\<open>Array.prototype\<close> and then \<^verbatim>\<open>Object.prototype\<close>).
\<close>

datatype prototype = ObjectPrototype | NullPrototype | ValuePrototype json

type_synonym shapeObject = "(string \<times> json) list \<times> prototype"

text \<open>\<^verbatim>\<open>shape.props\<close>: the own property, else the property of the prototype. The built-in
  prototypes have no \<^verbatim>\<open>props\<close>.\<close>

definition readProps :: "shapeObject \<Rightarrow> json option" where
  "readProps shape =
     (case map_of (fst shape) ''props'' of
        Some v \<Rightarrow> Some v
      | None \<Rightarrow>
          (case snd shape of
             ValuePrototype p \<Rightarrow> field p ''props''
           | _ \<Rightarrow> None))"

text \<open>
  Whether an assignment to \<^verbatim>\<open>__proto__\<close> on an object without an own property of that
  name reaches the accessor of \<^verbatim>\<open>Object.prototype\<close>: not when the prototype is
  \<^verbatim>\<open>null\<close>, and not when the prototype is an object with an own property
  \<^verbatim>\<open>__proto__\<close> (\<^verbatim>\<open>JSON.parse\<close> defines such a key as a data property).
\<close>

fun reachesProtoSetter :: "prototype \<Rightarrow> bool" where
  "reachesProtoSetter ObjectPrototype = True"
| "reachesProtoSetter NullPrototype = False"
| "reachesProtoSetter (ValuePrototype p) = (\<not> has_key ''__proto__'' p)"

text \<open>The setter of \<^verbatim>\<open>__proto__\<close>: an object or an array becomes the prototype,
  \<^verbatim>\<open>null\<close> removes it, any other value is ignored.\<close>

fun protoSetter :: "json \<Rightarrow> prototype \<Rightarrow> prototype" where
  "protoSetter JNull pr = NullPrototype"
| "protoSetter (JObj kvs) pr = ValuePrototype (JObj kvs)"
| "protoSetter (JArr xs) pr = ValuePrototype (JArr xs)"
| "protoSetter v pr = pr"

text \<open>
  \<^verbatim>\<open>shape[key] = value\<close>. An own property takes the value and keeps its place.
  Without one, the assignment walks the prototypes: it finds the accessor
  \<^verbatim>\<open>__proto__\<close> of \<^verbatim>\<open>Object.prototype\<close>, whose setter changes the prototype and stores
  no property; under every other key it finds a writable data property or nothing, and
  defines a new own property, which goes last.
\<close>

definition assign :: "string \<Rightarrow> json \<Rightarrow> shapeObject \<Rightarrow> shapeObject" where
  "assign key v shape =
     (if key = ''__proto__'' \<and> map_of (fst shape) key = None \<and> reachesProtoSetter (snd shape)
      then (fst shape, protoSetter v (snd shape))
      else (obj_set key v (fst shape), snd shape))"

text \<open>
  One turn of the loop \<^verbatim>\<open>for (const [key, value] of Object.entries(updates))\<close>.
\<close>

definition mergeEntry :: "string \<times> json \<Rightarrow> shapeObject \<Rightarrow> shapeObject" where
  "mergeEntry kv shape =
     (case kv of (key, v) \<Rightarrow>
        (if key = ''props'' \<and> typeof v = ''object'' \<and> truthy_opt (readProps shape)
         then assign ''props''
                (spread2 (case readProps shape of Some p \<Rightarrow> p | None \<Rightarrow> JNull) v) shape
         else assign key v shape))"

text \<open>
  The whole loop on the record \<open>r\<close>. What stays of the record afterwards is its own
  properties: the validator of the write reads \<^verbatim>\<open>id\<close> and \<^verbatim>\<open>typeName\<close>, which the record
  owns, and \<^verbatim>\<open>JSON.stringify\<close> prints own properties only. A record that has an \<^verbatim>\<open>id\<close> is
  an object.
\<close>

fun mergeUpdates :: "json \<Rightarrow> json \<Rightarrow> json" where
  "mergeUpdates (JObj kvs) updates =
     JObj (fst (fold mergeEntry (spread updates) (kvs, ObjectPrototype)))"
| "mergeUpdates r updates = r"

text \<open>The memory part of \<^verbatim>\<open>tldrawUpdateShape\<close>; the failure is \<^verbatim>\<open>Shape not found\<close>.\<close>

definition updateShape :: "json \<Rightarrow> string \<Rightarrow> json \<Rightarrow> error + json" where
  "updateShape f shapeId updates =
     (case field f ''records'' of
        Some (JArr rs) \<Rightarrow>
          (case findIndex (\<lambda>r. field r ''id'' = Some (JStr shapeId)) rs of
             None \<Rightarrow> Inl ShapeNotFound
           | Some shapeIndex \<Rightarrow>
               Inr (set_field f ''records''
                      (JArr (rs[shapeIndex := mergeUpdates (rs ! shapeIndex) updates]))))
      | _ \<Rightarrow> Inl TypeError)"

text \<open>The memory part of \<^verbatim>\<open>tldrawDeleteShape\<close>; the failure is \<^verbatim>\<open>Shape not found\<close>.\<close>

definition deleteShape :: "json \<Rightarrow> string \<Rightarrow> error + json" where
  "deleteShape f shapeId =
     (case field f ''records'' of
        Some (JArr rs) \<Rightarrow>
          (let initialLength = length rs;
               rs' = filter (\<lambda>r. field r ''id'' \<noteq> Some (JStr shapeId)) rs
           in if length rs' = initialLength then Inl ShapeNotFound
              else Inr (set_field f ''records'' (JArr rs')))
      | _ \<Rightarrow> Inl TypeError)"

definition tldrawAddShape ::
  "platform \<Rightarrow> filesystem \<Rightarrow> string \<Rightarrow> json \<Rightarrow> string option \<Rightarrow> string
     \<Rightarrow> (error + json) \<times> filesystem" where
  "tldrawAddShape P fs path shape pageId uuid =
     (case tldrawRead P fs path of
        Inl e \<Rightarrow> (Inl e, fs)
      | Inr f \<Rightarrow>
     (case addShape f shape pageId uuid of
        Inl e \<Rightarrow> (Inl e, fs)
      | Inr (shapeId, f') \<Rightarrow>
     (case tldrawWrite P fs path (Object f') of
        (Inl e, fs') \<Rightarrow> (Inl e, fs')
      | (Inr m, fs') \<Rightarrow> (Inr shapeId, fs'))))"

definition tldrawUpdateShape ::
  "platform \<Rightarrow> filesystem \<Rightarrow> string \<Rightarrow> string \<Rightarrow> json \<Rightarrow> (error + string) \<times> filesystem" where
  "tldrawUpdateShape P fs path shapeId updates =
     (case tldrawRead P fs path of
        Inl e \<Rightarrow> (Inl e, fs)
      | Inr f \<Rightarrow>
     (case updateShape f shapeId updates of
        Inl e \<Rightarrow> (Inl e, fs)
      | Inr f' \<Rightarrow>
     (case tldrawWrite P fs path (Object f') of
        (Inl e, fs') \<Rightarrow> (Inl e, fs')
      | (Inr m, fs') \<Rightarrow> (Inr (''Updated shape: '' @ shapeId), fs'))))"

definition tldrawDeleteShape ::
  "platform \<Rightarrow> filesystem \<Rightarrow> string \<Rightarrow> string \<Rightarrow> (error + string) \<times> filesystem" where
  "tldrawDeleteShape P fs path shapeId =
     (case tldrawRead P fs path of
        Inl e \<Rightarrow> (Inl e, fs)
      | Inr f \<Rightarrow>
     (case deleteShape f shapeId of
        Inl e \<Rightarrow> (Inl e, fs)
      | Inr f' \<Rightarrow>
     (case tldrawWrite P fs path (Object f') of
        (Inl e, fs') \<Rightarrow> (Inl e, fs')
      | (Inr m, fs') \<Rightarrow> (Inr (''Deleted shape: '' @ shapeId), fs'))))"

section \<open>A concrete platform\<close>

text \<open>
  The theorems below hold for every platform. Their concrete instances are evaluated
  on this one: the POSIX variant of the \<^verbatim>\<open>path\<close> module with a working directory
  \<open>cwd\<close> (an absolute path), and JSON text with integers as its numbers.
\<close>

fun split_on :: "char \<Rightarrow> string \<Rightarrow> string list" where
  "split_on c [] = [[]]"
| "split_on c (x # xs) =
     (if x = c then [] # split_on c xs
      else (case split_on c xs of
              s # ss \<Rightarrow> (x # s) # ss
            | [] \<Rightarrow> [[x]]))"

fun join_with :: "string \<Rightarrow> string list \<Rightarrow> string" where
  "join_with sep [] = []"
| "join_with sep [s] = s"
| "join_with sep (s # t # ss) = s @ sep @ join_with sep (t # ss)"

text \<open>The segments of an absolute path, with \<^verbatim>\<open>.\<close>, \<^verbatim>\<open>..\<close> and empty segments
  resolved; \<open>acc\<close> holds the segments kept so far, the last one first.\<close>

fun norm_segs :: "string list \<Rightarrow> string list \<Rightarrow> string list" where
  "norm_segs acc [] = rev acc"
| "norm_segs acc (s # ss) =
     (if s = [] \<or> s = ''.'' then norm_segs acc ss
      else if s = ''..'' then norm_segs (tl acc) ss
      else norm_segs (s # acc) ss)"

definition posix_isAbsolute :: "string \<Rightarrow> bool" where
  "posix_isAbsolute p = (case p of [] \<Rightarrow> False | c # cs \<Rightarrow> c = CHR ''/'')"

text \<open>\<^verbatim>\<open>resolve\<close> reads its arguments from the last to the first until one is
  absolute, and falls back on the working directory.\<close>

fun resolve_acc :: "string \<Rightarrow> string list \<Rightarrow> string \<Rightarrow> string" where
  "resolve_acc cwd [] acc = cwd @ ''/'' @ acc"
| "resolve_acc cwd (a # as) acc =
     (if a = [] then resolve_acc cwd as acc
      else if posix_isAbsolute a then a @ ''/'' @ acc
      else resolve_acc cwd as (a @ ''/'' @ acc))"

definition posix_segments :: "string \<Rightarrow> string list \<Rightarrow> string list" where
  "posix_segments cwd args = norm_segs [] (split_on CHR ''/'' (resolve_acc cwd (rev args) []))"

definition posix_resolve :: "string \<Rightarrow> string list \<Rightarrow> string" where
  "posix_resolve cwd args = ''/'' @ join_with ''/'' (posix_segments cwd args)"

fun drop_common :: "string list \<Rightarrow> string list \<Rightarrow> string list \<times> string list" where
  "drop_common (a # as) (b # bs) = (if a = b then drop_common as bs else (a # as, b # bs))"
| "drop_common as bs = (as, bs)"

definition posix_relative :: "string \<Rightarrow> string \<Rightarrow> string \<Rightarrow> string" where
  "posix_relative cwd from to =
     (case drop_common (posix_segments cwd [from]) (posix_segments cwd [to]) of
        (restFrom, restTo) \<Rightarrow> join_with ''/'' (replicate (length restFrom) ''..'' @ restTo))"

text \<open>\<^verbatim>\<open>JSON.stringify(v, null, 2)\<close>: two spaces of indentation for each level, one
  element or member on a line, \<^verbatim>\<open>[]\<close> and \<^verbatim>\<open>{}\<close> for the empty array and object.\<close>

definition hexDigit :: "nat \<Rightarrow> char" where
  "hexDigit n = ''0123456789abcdef'' ! (n mod 16)"

definition escapeChar :: "char \<Rightarrow> string" where
  "escapeChar c =
     (if c = CHR 0x22 then [CHR 0x5C, CHR 0x22]
      else if c = CHR 0x5C then [CHR 0x5C, CHR 0x5C]
      else if c = CHR 0x08 then [CHR 0x5C, CHR ''b'']
      else if c = CHR 0x0C then [CHR 0x5C, CHR ''f'']
      else if c = CHR 0x0A then [CHR 0x5C, CHR ''n'']
      else if c = CHR 0x0D then [CHR 0x5C, CHR ''r'']
      else if c = CHR 0x09 then [CHR 0x5C, CHR ''t'']
      else if of_char c < (32 :: nat)
        then [CHR 0x5C, CHR ''u'', CHR ''0'', CHR ''0'',
              hexDigit (of_char c div 16), hexDigit (of_char c)]
      else [c])"

definition quote :: "string \<Rightarrow> string" where
  "quote s = [CHR 0x22] @ concat (map escapeChar s) @ [CHR 0x22]"

definition show_int :: "int \<Rightarrow> string" where
  "show_int i = (if i < 0 then ''-'' @ digits (nat (- i)) else digits (nat i))"

fun stringify_at :: "nat \<Rightarrow> json \<Rightarrow> string"
  and stringify_elems :: "nat \<Rightarrow> json list \<Rightarrow> string list"
  and stringify_members :: "nat \<Rightarrow> (string \<times> json) list \<Rightarrow> string list" where
  "stringify_at ind JNull = ''null''"
| "stringify_at ind (JBool b) = (if b then ''true'' else ''false'')"
| "stringify_at ind (JNum n) = show_int n"
| "stringify_at ind (JStr s) = quote s"
| "stringify_at ind (JArr xs) =
     (if xs = [] then ''[]''
      else ''['' @ [CHR 0x0A] @ join_with ('','' @ [CHR 0x0A]) (stringify_elems (ind + 2) xs)
           @ [CHR 0x0A] @ replicate ind CHR '' '' @ '']'')"
| "stringify_at ind (JObj kvs) =
     (if kvs = [] then ''{}''
      else ''{'' @ [CHR 0x0A] @ join_with ('','' @ [CHR 0x0A]) (stringify_members (ind + 2) kvs)
           @ [CHR 0x0A] @ replicate ind CHR '' '' @ ''}'')"
| "stringify_elems ind [] = []"
| "stringify_elems ind (x # xs) =
     (replicate ind CHR '' '' @ stringify_at ind x) # stringify_elems ind xs"
| "stringify_members ind [] = []"
| "stringify_members ind (kv # kvs) =
     (replicate ind CHR '' '' @ quote (fst kv) @ '': '' @ stringify_at ind (snd kv))
     # stringify_members ind kvs"

definition json_stringify :: "json \<Rightarrow> string" where
  "json_stringify v = stringify_at 0 v"

text \<open>
  \<^verbatim>\<open>JSON.parse\<close>, by recursive descent. \<open>None\<close> is a \<^verbatim>\<open>SyntaxError\<close>, and also the
  answer to text outside the fragment (a number with a fraction or an exponent, an
  escape beyond the 8-bit range). The descent into nested values is bounded by the
  fuel, which \<open>json_parse\<close> sets from the length of the text.
\<close>

definition isJsonSpace :: "char \<Rightarrow> bool" where
  "isJsonSpace c = (c \<in> set [CHR 0x20, CHR 0x09, CHR 0x0A, CHR 0x0D])"

definition skip_ws :: "string \<Rightarrow> string" where
  "skip_ws s = dropWhile isJsonSpace s"

definition isDigit :: "char \<Rightarrow> bool" where
  "isDigit c = (48 \<le> (of_char c :: nat) \<and> (of_char c :: nat) \<le> 57)"

definition hexValue :: "char \<Rightarrow> nat option" where
  "hexValue c =
     (let n = (of_char c :: nat)
      in if 48 \<le> n \<and> n \<le> 57 then Some (n - 48)
         else if 97 \<le> n \<and> n \<le> 102 then Some (n - 87)
         else if 65 \<le> n \<and> n \<le> 70 then Some (n - 55)
         else None)"

fun hexNumber :: "nat \<Rightarrow> string \<Rightarrow> nat option" where
  "hexNumber acc [] = Some acc"
| "hexNumber acc (c # cs) =
     (case hexValue c of
        None \<Rightarrow> None
      | Some d \<Rightarrow> hexNumber (16 * acc + d) cs)"

definition unescape :: "char \<Rightarrow> char option" where
  "unescape e =
     (if e = CHR 0x22 then Some (CHR 0x22)
      else if e = CHR 0x5C then Some (CHR 0x5C)
      else if e = CHR ''/'' then Some (CHR ''/'')
      else if e = CHR ''b'' then Some (CHR 0x08)
      else if e = CHR ''f'' then Some (CHR 0x0C)
      else if e = CHR ''n'' then Some (CHR 0x0A)
      else if e = CHR ''r'' then Some (CHR 0x0D)
      else if e = CHR ''t'' then Some (CHR 0x09)
      else None)"

text \<open>The characters of a string after its opening quote, up to the closing one;
  \<open>acc\<close> holds the characters read, the last one first.\<close>

fun parse_chars :: "string \<Rightarrow> string \<Rightarrow> (string \<times> string) option" where
  "parse_chars acc [] = None"
| "parse_chars acc [c] = (if c = CHR 0x22 then Some (rev acc, []) else None)"
| "parse_chars acc (c # e # cs) =
     (if c = CHR 0x22 then Some (rev acc, e # cs)
      else if c = CHR 0x5C then
        (if e = CHR ''u'' then
           (if length cs < 4 then None
            else (case hexNumber 0 (take 4 cs) of
                    None \<Rightarrow> None
                  | Some n \<Rightarrow>
                      (if n < 256 then parse_chars (char_of n # acc) (drop 4 cs) else None)))
         else (case unescape e of
                 None \<Rightarrow> None
               | Some ch \<Rightarrow> parse_chars (ch # acc) cs))
      else if (of_char c :: nat) < 32 then None
      else parse_chars (c # acc) (e # cs))"

fun digitsValue :: "nat \<Rightarrow> string \<Rightarrow> nat" where
  "digitsValue acc [] = acc"
| "digitsValue acc (c # cs) = digitsValue (10 * acc + (of_char c - 48)) cs"

definition parse_number :: "string \<Rightarrow> (json \<times> string) option" where
  "parse_number s =
     (let neg = (s \<noteq> [] \<and> hd s = CHR ''-'');
          t = (if neg then tl s else s);
          ds = takeWhile isDigit t;
          r = dropWhile isDigit t
      in if ds = [] \<or> (1 < length ds \<and> hd ds = CHR ''0'') then None
         else if r \<noteq> [] \<and> hd r \<in> set [CHR ''.'', CHR ''e'', CHR ''E''] then None
         else Some (JNum (if neg then - int (digitsValue 0 ds) else int (digitsValue 0 ds)), r))"

fun parse_value :: "nat \<Rightarrow> string \<Rightarrow> (json \<times> string) option"
  and parse_elems :: "nat \<Rightarrow> json list \<Rightarrow> string \<Rightarrow> (json \<times> string) option"
  and parse_members :: "nat \<Rightarrow> (string \<times> json) list \<Rightarrow> string \<Rightarrow> (json \<times> string) option" where
  "parse_value 0 s = None"
| "parse_value (Suc n) s =
     (case skip_ws s of
        [] \<Rightarrow> None
      | c # cs \<Rightarrow>
          (if c = CHR ''{'' then
             (case skip_ws cs of
                [] \<Rightarrow> None
              | d # ds \<Rightarrow> if d = CHR ''}'' then Some (JObj [], ds) else parse_members n [] cs)
           else if c = CHR ''['' then
             (case skip_ws cs of
                [] \<Rightarrow> None
              | d # ds \<Rightarrow> if d = CHR '']'' then Some (JArr [], ds) else parse_elems n [] cs)
           else if c = CHR 0x22 then
             (case parse_chars [] cs of
                None \<Rightarrow> None
              | Some (str, r) \<Rightarrow> Some (JStr str, r))
           else if prefix ''true'' (c # cs) then Some (JBool True, drop 4 (c # cs))
           else if prefix ''false'' (c # cs) then Some (JBool False, drop 5 (c # cs))
           else if prefix ''null'' (c # cs) then Some (JNull, drop 4 (c # cs))
           else parse_number (c # cs)))"
| "parse_elems 0 acc s = None"
| "parse_elems (Suc n) acc s =
     (case parse_value n s of
        None \<Rightarrow> None
      | Some (v, r) \<Rightarrow>
          (case skip_ws r of
             [] \<Rightarrow> None
           | c # cs \<Rightarrow>
               (if c = CHR '','' then parse_elems n (v # acc) cs
                else if c = CHR '']'' then Some (JArr (rev (v # acc)), cs)
                else None)))"
| "parse_members 0 acc s = None"
| "parse_members (Suc n) acc s =
     (case skip_ws s of
        [] \<Rightarrow> None
      | q # qs \<Rightarrow>
          (if q \<noteq> CHR 0x22 then None
           else (case parse_chars [] qs of
                   None \<Rightarrow> None
                 | Some (k, r) \<Rightarrow>
                     (case skip_ws r of
                        [] \<Rightarrow> None
                      | c # cs \<Rightarrow>
                          (if c \<noteq> CHR '':'' then None
                           else (case parse_value n cs of
                                   None \<Rightarrow> None
                                 | Some (v, r') \<Rightarrow>
                                     (case skip_ws r' of
                                        [] \<Rightarrow> None
                                      | d # ds \<Rightarrow>
                                          (if d = CHR '','' then parse_members n (obj_set k v acc) ds
                                           else if d = CHR ''}''
                                             then Some (JObj (obj_set k v acc), ds)
                                           else None))))))))"

definition json_parse :: "string \<Rightarrow> json option" where
  "json_parse s =
     (case parse_value (2 * length s + 2) s of
        None \<Rightarrow> None
      | Some (v, r) \<Rightarrow> if skip_ws r = [] then Some v else None)"

text \<open>The values that have no object with a repeated key: every value of the runtime
  is one of them.\<close>

fun wf_json :: "json \<Rightarrow> bool"
  and wf_elems :: "json list \<Rightarrow> bool"
  and wf_members :: "(string \<times> json) list \<Rightarrow> bool" where
  "wf_json (JArr xs) = wf_elems xs"
| "wf_json (JObj kvs) = (distinct (map fst kvs) \<and> wf_members kvs)"
| "wf_json v = True"
| "wf_elems [] = True"
| "wf_elems (x # xs) = (wf_json x \<and> wf_elems xs)"
| "wf_members [] = True"
| "wf_members (kv # kvs) = (wf_json (snd kv) \<and> wf_members kvs)"

text \<open>What may follow a number, and what may follow a value, in printed text: the
  printer puts a comma, a line feed or nothing after a value.\<close>

definition number_follow :: "string \<Rightarrow> bool" where
  "number_follow rest =
     (rest = [] \<or> (\<not> isDigit (hd rest) \<and> hd rest \<notin> set [CHR ''.'', CHR ''e'', CHR ''E'']))"

definition value_follow :: "string \<Rightarrow> bool" where
  "value_follow rest = (rest = [] \<or> hd rest = CHR '','' \<or> hd rest = CHR 0x0A)"

definition posix :: "string \<Rightarrow> string \<Rightarrow> platform" where
  "posix cwd dir =
     \<lparr>TLDRAW_DIR = dir,
      path_resolve = posix_resolve cwd,
      path_relative = posix_relative cwd,
      path_isAbsolute = posix_isAbsolute,
      JSON_parse = json_parse,
      JSON_stringify = json_stringify\<rparr>"

section \<open>Specification-side notions\<close>

text \<open>
  The indices at or after \<open>k\<close> where \<open>pat\<close> stands in \<open>s\<close>, in increasing order. This
  is the vocabulary of the statements about delimiters; the program itself only uses
  \<open>indexOf\<close>.
\<close>

definition occurrences_from :: "string \<Rightarrow> string \<Rightarrow> nat \<Rightarrow> nat list" where
  "occurrences_from pat s k = filter (\<lambda>i. prefix pat (drop i s)) [k..<Suc (length s)]"

definition occurrences :: "string \<Rightarrow> string \<Rightarrow> nat list" where
  "occurrences pat s = occurrences_from pat s 0"

text \<open>The same list by one pass over the text (\<open>cs\<close> is the rest of the text, which
  begins at index \<open>i\<close>); lemma \<open>occurrences_from_scan\<close> is the equation that
  evaluation uses.\<close>

fun scan_occurrences :: "string \<Rightarrow> string \<Rightarrow> nat \<Rightarrow> nat list" where
  "scan_occurrences pat [] i = (if pat = [] then [i] else [])"
| "scan_occurrences pat (c # cs) i =
     (if prefix pat (c # cs) then i # scan_occurrences pat cs (Suc i)
      else scan_occurrences pat cs (Suc i))"

text \<open>
  The decoding of an embedded block as the amended claim C5 words it: the start
  delimiter is looked for in the whole text, a repetition of it after the end of its
  first occurrence, the end delimiter after the end of the first start delimiter, and
  a repetition of the end delimiter after the end of that occurrence.
\<close>

definition locateBlock_spec :: "string \<Rightarrow> error + MarkdownTldrawBlock" where
  "locateBlock_spec md =
     (case occurrences MARKDOWN_TLDRAW_START_MARKER md of
        [] \<Rightarrow> Inl MissingBlock
      | s # ss \<Rightarrow>
          (if occurrences_from MARKDOWN_TLDRAW_START_MARKER md
                (s + length MARKDOWN_TLDRAW_START_MARKER) \<noteq> []
           then Inl DuplicateBlock
           else (case occurrences_from MARKDOWN_TLDRAW_END_MARKER md
                        (s + length MARKDOWN_TLDRAW_START_MARKER) of
                   [] \<Rightarrow> Inl MissingBlock
                 | e # es \<Rightarrow>
                     (if occurrences_from MARKDOWN_TLDRAW_END_MARKER md
                           (e + length MARKDOWN_TLDRAW_END_MARKER) \<noteq> []
                      then Inl DuplicateBlock
                      else if trim (take (e - (s + length MARKDOWN_TLDRAW_START_MARKER))
                                      (drop (s + length MARKDOWN_TLDRAW_START_MARKER) md)) = []
                        then Inl EmptyBlock
                      else Inr \<lparr>jsonStart = s + length MARKDOWN_TLDRAW_START_MARKER,
                                jsonEnd = e,
                                jsonText =
                                  trim (take (e - (s + length MARKDOWN_TLDRAW_START_MARKER))
                                          (drop (s + length MARKDOWN_TLDRAW_START_MARKER) md))\<rparr>))))"

text \<open>The claim about the sandbox speaks of a relative path that begins with a
  parent-directory segment: the path \<^verbatim>\<open>..\<close> itself, or \<^verbatim>\<open>..\<close> and a separator.\<close>

definition beginsWithParentSegment :: "string \<Rightarrow> bool" where
  "beginsWithParentSegment rel =
     (rel = ''..'' \<or> prefix ''../'' rel \<or> prefix [CHR ''.'', CHR ''.'', CHR 0x5C] rel)"

section \<open>Example inputs\<close>

text \<open>A document with one page and one shape, for the concrete instances.\<close>

definition example_page :: json where
  "example_page = JObj
     [(''id'', JStr ''page:p1''), (''typeName'', JStr ''page''),
      (''name'', JStr ''Page 1''), (''index'', JStr ''a1'')]"

definition example_shape :: json where
  "example_shape = JObj
     [(''id'', JStr ''shape:s1''), (''typeName'', JStr ''shape''), (''type'', JStr ''geo''),
      (''x'', JNum 10),
      (''props'', JObj [(''color'', JStr ''black''), (''fill'', JStr ''none'')])]"

definition example_doc :: json where
  "example_doc = JObj
     [(''tldrawFileFormatVersion'', JNum 1),
      (''schema'', JObj [(''schemaVersion'', JNum 2)]),
      (''records'', JArr [example_page, example_shape])]"

definition example_empty_doc :: json where
  "example_empty_doc = JObj
     [(''tldrawFileFormatVersion'', JNum 1), (''schema'', JObj []), (''records'', JArr [])]"



text \<open>A text with an embedded document between the two delimiters.\<close>

definition example_markdown :: string where
  "example_markdown =
     ''intro '' @ MARKDOWN_TLDRAW_START_MARKER @ json_stringify example_empty_doc
       @ MARKDOWN_TLDRAW_END_MARKER @ '' outro''"


section \<open>Properties\<close>

subsection \<open>The document validator\<close>

text \<open>What the validator accepts, and the three answers it can give.\<close>

lemma validateRecords_accepts:
  "(validateRecords rs = None)
     = (\<forall>r \<in> set rs. r \<noteq> JNull \<and> truthy_opt (field r ''id'') \<and> truthy_opt (field r ''typeName''))"
  by (induction rs) auto

lemma validateRecords_result:
  "validateRecords rs = None \<or> validateRecords rs = Some InvalidDocument
     \<or> (validateRecords rs = Some TypeError \<and> JNull \<in> set rs)"
  by (induction rs) auto

lemma validateTldrawFile_accepts:
  "(validateTldrawFile v = Inr v)
     = (truthy v \<and> typeof v = ''object''
        \<and> typeof_opt (field v ''tldrawFileFormatVersion'') = ''number''
        \<and> truthy_opt (field v ''schema'') \<and> typeof_opt (field v ''schema'') = ''object''
        \<and> (\<exists>rs. field v ''records'' = Some (JArr rs)
              \<and> (\<forall>r \<in> set rs. r \<noteq> JNull \<and> truthy_opt (field r ''id'')
                                \<and> truthy_opt (field r ''typeName''))))"
  unfolding validateRecords_accepts[symmetric]
  by (auto simp: validateTldrawFile_def split: option.splits json.splits)

lemma validateTldrawFile_result:
  "validateTldrawFile v = Inr v \<or> validateTldrawFile v = Inl InvalidDocument
     \<or> (validateTldrawFile v = Inl TypeError
         \<and> (\<exists>rs. field v ''records'' = Some (JArr rs) \<and> JNull \<in> set rs))"
proof (cases "field v ''records''")
  case None
  then show ?thesis by (simp add: validateTldrawFile_def)
next
  case (Some a)
  show ?thesis
  proof (cases a)
    case (JArr rs)
    with Some validateRecords_result[of rs] show ?thesis
      by (auto simp: validateTldrawFile_def)
  qed (use Some in \<open>simp_all add: validateTldrawFile_def\<close>)
qed

text \<open>
  C9. The validator is meant to answer every input with the document or with
  \<open>InvalidDocument\<close>. On a document whose record array holds \<^verbatim>\<open>null\<close> it does
  neither: the loop reads \<^verbatim>\<open>record.id\<close> on \<^verbatim>\<open>null\<close> and the runtime raises a
  \<open>TypeError\<close> before the check of the identity is reached.
\<close>

theorem validateTldrawFile_null_record:
  "validateTldrawFile
     (JObj [(''tldrawFileFormatVersion'', JNum 1), (''schema'', JObj []),
            (''records'', JArr [JNull])]) = Inl TypeError"
  by (simp add: validateTldrawFile_def)

theorem validateTldrawFile_null_record_neither:
  "validateTldrawFile
     (JObj [(''tldrawFileFormatVersion'', JNum 1), (''schema'', JObj []),
            (''records'', JArr [JNull])]) \<noteq> Inl InvalidDocument
   \<and> (\<forall>d. validateTldrawFile
     (JObj [(''tldrawFileFormatVersion'', JNum 1), (''schema'', JObj []),
            (''records'', JArr [JNull])]) \<noteq> Inr d)"
  using validateTldrawFile_null_record by simp

subsection \<open>Delimiters of an embedded block\<close>

lemma occurrences_from_step:
  "i < length s \<Longrightarrow> occurrences_from pat s i =
     (if prefix pat (drop i s) then i # occurrences_from pat s (Suc i)
      else occurrences_from pat s (Suc i))"
  by (simp add: occurrences_from_def upt_conv_Cons del: upt_Suc)

lemma occurrences_from_end:
  "pat \<noteq> [] \<Longrightarrow> length s \<le> i \<Longrightarrow> occurrences_from pat s i = []"
  by (cases "i = length s") (simp_all add: occurrences_from_def)

lemma scan_occurrences_upt:
  "cs = drop i s \<Longrightarrow> i \<le> length s \<Longrightarrow> scan_occurrences pat cs i = occurrences_from pat s i"
proof (induction cs arbitrary: i)
  case Nil
  then have "i = length s" by simp
  then show ?case by (simp add: occurrences_from_def)
next
  case (Cons c cs)
  have lt: "i < length s"
  proof (rule ccontr)
    assume "\<not> i < length s"
    then have "drop i s = []" by simp
    with Cons.prems(1) show False by simp
  qed
  have d: "cs = drop (Suc i) s"
    using Cons.prems(1) by (metis drop_Suc list.sel(3) tl_drop)
  have ih: "scan_occurrences pat cs (Suc i) = occurrences_from pat s (Suc i)"
    using Cons.IH[OF d] lt by simp
  have pc: "prefix pat (c # cs) = prefix pat (drop i s)"
    using Cons.prems(1) by simp
  show ?case
    unfolding scan_occurrences.simps occurrences_from_step[OF lt] pc ih
    by simp
qed

lemma occurrences_from_scan [code]:
  "occurrences_from pat s k =
     (if k \<le> length s then scan_occurrences pat (drop k s) k else [])"
  by (simp add: scan_occurrences_upt) (simp add: occurrences_from_def)

lemma find_from_upt:
  "pat \<noteq> [] \<Longrightarrow> cs = drop i s \<Longrightarrow> i \<le> length s \<Longrightarrow>
   find_from pat cs i =
     (case occurrences_from pat s i of [] \<Rightarrow> None | j # js \<Rightarrow> Some j)"
proof (induction cs arbitrary: i)
  case Nil
  then have "length s \<le> i" by simp
  then show ?case using Nil.prems(1) by (simp add: occurrences_from_end)
next
  case (Cons c cs)
  have lt: "i < length s"
  proof (rule ccontr)
    assume "\<not> i < length s"
    then have "drop i s = []" by simp
    with Cons.prems(2) show False by simp
  qed
  have d: "cs = drop (Suc i) s"
    using Cons.prems(2) by (metis drop_Suc list.sel(3) tl_drop)
  have ih: "find_from pat cs (Suc i) =
      (case occurrences_from pat s (Suc i) of [] \<Rightarrow> None | j # js \<Rightarrow> Some j)"
    using Cons.IH[OF Cons.prems(1) d] lt by simp
  have pc: "prefix pat (c # cs) = prefix pat (drop i s)"
    using Cons.prems(2) by simp
  show ?case
    unfolding find_from.simps occurrences_from_step[OF lt] pc ih
    by simp
qed

text \<open>\<open>indexOf\<close> returns the first occurrence at or after its start index.\<close>

lemma indexOf_occurrences:
  assumes "pat \<noteq> []"
  shows "indexOf s pat k = (case occurrences_from pat s k of [] \<Rightarrow> None | j # js \<Rightarrow> Some j)"
proof (cases "k \<le> length s")
  case True
  then show ?thesis using find_from_upt[OF assms refl, of k s]
    by (simp add: indexOf_def min_def)
next
  case False
  then have "occurrences_from pat s k = []" using assms by (simp add: occurrences_from_end)
  then show ?thesis using False assms by (simp add: indexOf_def min_def)
qed

lemma START_nonempty: "MARKDOWN_TLDRAW_START_MARKER \<noteq> []"
  by (simp add: MARKDOWN_TLDRAW_START_MARKER_def)

lemma END_nonempty: "MARKDOWN_TLDRAW_END_MARKER \<noteq> []"
  by (simp add: MARKDOWN_TLDRAW_END_MARKER_def)

lemma locate_by_occurrences:
  "locateMarkdownTldrawBlock md = locateBlock_spec md"
  unfolding locateMarkdownTldrawBlock_def locateBlock_spec_def occurrences_def
    indexOf_occurrences[OF START_nonempty] indexOf_occurrences[OF END_nonempty] slice_def
  by (simp add: Let_def split: list.splits)

text \<open>
  C5, as stated, fails: the end delimiter is only looked for after the start delimiter,
  so a text where the end delimiter stands once before the block and once after it
  holds that delimiter twice and still decodes.
\<close>

theorem locate_end_marker_twice:
  "length (occurrences MARKDOWN_TLDRAW_END_MARKER
      (MARKDOWN_TLDRAW_END_MARKER @ MARKDOWN_TLDRAW_START_MARKER @ ''{}''
        @ MARKDOWN_TLDRAW_END_MARKER)) = 2
   \<and> locateMarkdownTldrawBlock
      (MARKDOWN_TLDRAW_END_MARKER @ MARKDOWN_TLDRAW_START_MARKER @ ''{}''
        @ MARKDOWN_TLDRAW_END_MARKER)
     = Inr \<lparr>jsonStart = 108, jsonEnd = 110, jsonText = ''{}''\<rparr>"
  by code_simp

text \<open>
  C5, amended. For every text, decoding the embedded block fails with \<open>MissingBlock\<close>
  when the start delimiter does not occur; else with \<open>DuplicateBlock\<close> when the start
  delimiter occurs again at or after the end of its first occurrence; else with
  \<open>MissingBlock\<close> when no end delimiter occurs at or after the end of the first start
  delimiter; else with \<open>DuplicateBlock\<close> when the end delimiter occurs again at or
  after the end of that first end delimiter; else with \<open>EmptyBlock\<close> when the text
  strictly between the two delimiters is empty after trimming; otherwise the trimmed
  text between them is the decode target, and the recorded offsets are those of the
  untrimmed text.
\<close>

theorem locateMarkdownTldrawBlock_spec:
  "locateMarkdownTldrawBlock md = locateBlock_spec md"
  by (rule locate_by_occurrences)

theorem locateMarkdownTldrawBlock_spec_witness:
  "locateMarkdownTldrawBlock
     (MARKDOWN_TLDRAW_START_MARKER @ '' {} '' @ MARKDOWN_TLDRAW_END_MARKER)
     = Inr \<lparr>jsonStart = 55, jsonEnd = 59, jsonText = ''{}''\<rparr>
   \<and> locateMarkdownTldrawBlock
     (MARKDOWN_TLDRAW_START_MARKER @ MARKDOWN_TLDRAW_START_MARKER @ ''{}''
        @ MARKDOWN_TLDRAW_END_MARKER) = Inl DuplicateBlock
   \<and> locateMarkdownTldrawBlock
     (MARKDOWN_TLDRAW_END_MARKER @ MARKDOWN_TLDRAW_START_MARKER @ ''{}'') = Inl MissingBlock
   \<and> locateMarkdownTldrawBlock
     (MARKDOWN_TLDRAW_START_MARKER @ ''  '' @ MARKDOWN_TLDRAW_END_MARKER) = Inl EmptyBlock"
proof -
  have 1: "locateBlock_spec
     (MARKDOWN_TLDRAW_START_MARKER @ '' {} '' @ MARKDOWN_TLDRAW_END_MARKER)
     = Inr \<lparr>jsonStart = 55, jsonEnd = 59, jsonText = ''{}''\<rparr>"
    by code_simp
  have 2: "locateBlock_spec
     (MARKDOWN_TLDRAW_START_MARKER @ MARKDOWN_TLDRAW_START_MARKER @ ''{}''
        @ MARKDOWN_TLDRAW_END_MARKER) = Inl DuplicateBlock"
    by code_simp
  have 3: "locateBlock_spec
     (MARKDOWN_TLDRAW_END_MARKER @ MARKDOWN_TLDRAW_START_MARKER @ ''{}'') = Inl MissingBlock"
    by code_simp
  have 4: "locateBlock_spec
     (MARKDOWN_TLDRAW_START_MARKER @ ''  '' @ MARKDOWN_TLDRAW_END_MARKER) = Inl EmptyBlock"
    by code_simp
  show ?thesis
    unfolding locateMarkdownTldrawBlock_spec using 1 2 3 4 by (intro conjI)
qed

subsection \<open>The path sandbox\<close>

text \<open>On the POSIX platform, a relative path whose resolution leaves the root is
  blocked: the segments of the root are then no prefix of the segments of the target,
  and the relative path begins with \<^verbatim>\<open>..\<close>.\<close>

lemma join_with_parent:
  "prefix ''..'' (join_with ''/'' (''..'' # xs))"
  by (cases xs) simp_all

lemma drop_common_prefix:
  "drop_common as bs = (ra, rb) \<Longrightarrow> (ra = []) = prefix as bs"
  by (induction as bs rule: drop_common.induct) (auto split: if_splits)

lemma posix_escape_blocked:
  assumes "\<not> posix_isAbsolute p"
    and "\<not> prefix (posix_segments cwd [posix_resolve cwd [dir]])
                  (posix_segments cwd [posix_resolve cwd [posix_resolve cwd [dir], p]])"
  shows "securePath (posix cwd dir) p = Inl PathTraversal"
proof -
  obtain ra rb where d: "drop_common (posix_segments cwd [posix_resolve cwd [dir]])
       (posix_segments cwd [posix_resolve cwd [posix_resolve cwd [dir], p]]) = (ra, rb)"
    by (cases "drop_common (posix_segments cwd [posix_resolve cwd [dir]])
       (posix_segments cwd [posix_resolve cwd [posix_resolve cwd [dir], p]])")
  from drop_common_prefix[OF d] assms(2) obtain n where n: "length ra = Suc n"
    by (cases ra) auto
  have "prefix ''..'' (posix_relative cwd (posix_resolve cwd [dir])
           (posix_resolve cwd [posix_resolve cwd [dir], p]))"
    unfolding posix_relative_def d using n join_with_parent by simp
  then show ?thesis using assms(1)
    by (simp add: securePath_def posix_def Let_def startsWith_def)
qed

text \<open>
  C8. For every platform (so for every root) and every caller-supplied path: if the
  path is relative and its resolution against the root, taken relative to the root,
  begins with a parent-directory segment or is itself absolute, the sandbox fails with
  \<open>PathTraversal\<close>; if the path is absolute, the sandbox returns it resolved, with no
  check against the root.
\<close>

theorem securePath_sandbox:
  "(\<not> path_isAbsolute P p \<and>
      (beginsWithParentSegment
         (path_relative P (path_resolve P [TLDRAW_DIR P])
            (path_resolve P [path_resolve P [TLDRAW_DIR P], p]))
       \<or> path_isAbsolute P
         (path_relative P (path_resolve P [TLDRAW_DIR P])
            (path_resolve P [path_resolve P [TLDRAW_DIR P], p])))
     \<longrightarrow> securePath P p = Inl PathTraversal)
   \<and> (path_isAbsolute P p \<longrightarrow> securePath P p = Inr (path_resolve P [p]))"
  by (auto simp: securePath_def Let_def beginsWithParentSegment_def startsWith_def
        elim: prefixE)

theorem securePath_sandbox_witness:
  "\<not> path_isAbsolute (posix ''/home/u'' ''/home/u/.tldraw'') ''../../etc/x.tldr''
   \<and> beginsWithParentSegment
       (path_relative (posix ''/home/u'' ''/home/u/.tldraw'')
          (path_resolve (posix ''/home/u'' ''/home/u/.tldraw'')
             [TLDRAW_DIR (posix ''/home/u'' ''/home/u/.tldraw'')])
          (path_resolve (posix ''/home/u'' ''/home/u/.tldraw'')
             [path_resolve (posix ''/home/u'' ''/home/u/.tldraw'')
                [TLDRAW_DIR (posix ''/home/u'' ''/home/u/.tldraw'')],
              ''../../etc/x.tldr'']))
   \<and> securePath (posix ''/home/u'' ''/home/u/.tldraw'') ''../../etc/x.tldr''
       = Inl PathTraversal
   \<and> path_isAbsolute (posix ''/home/u'' ''/home/u/.tldraw'') ''/etc/x.tldr''
   \<and> securePath (posix ''/home/u'' ''/home/u/.tldraw'') ''/etc/x.tldr''
       = Inr (path_resolve (posix ''/home/u'' ''/home/u/.tldraw'') [''/etc/x.tldr''])
   \<and> path_resolve (posix ''/home/u'' ''/home/u/.tldraw'') [''/etc/x.tldr''] = ''/etc/x.tldr''"
proof -
  let ?P = "posix ''/home/u'' ''/home/u/.tldraw''"
  have r: "\<not> path_isAbsolute ?P ''../../etc/x.tldr''"
    by code_simp
  have b: "beginsWithParentSegment
       (path_relative ?P (path_resolve ?P [TLDRAW_DIR ?P])
          (path_resolve ?P [path_resolve ?P [TLDRAW_DIR ?P], ''../../etc/x.tldr'']))"
    by code_simp
  have a: "path_isAbsolute ?P ''/etc/x.tldr''"
    by code_simp
  have v: "path_resolve ?P [''/etc/x.tldr''] = ''/etc/x.tldr''"
    by code_simp
  from securePath_sandbox[of ?P "''../../etc/x.tldr''"] r b
  have 1: "securePath ?P ''../../etc/x.tldr'' = Inl PathTraversal" by blast
  from securePath_sandbox[of ?P "''/etc/x.tldr''"] a
  have 2: "securePath ?P ''/etc/x.tldr'' = Inr (path_resolve ?P [''/etc/x.tldr''])" by blast
  show ?thesis using r b a v 1 2 by (intro conjI)
qed

subsection \<open>Documents that passed the validator\<close>

lemma validateRecords_None:
  "validateRecords rs = None \<Longrightarrow> r \<in> set rs \<Longrightarrow>
     (\<exists>kvs. r = JObj kvs) \<and> truthy_opt (field r ''id'') \<and> truthy_opt (field r ''typeName'')"
proof (induction rs)
  case Nil
  then show ?case by simp
next
  case (Cons a rs)
  then show ?case
    by (cases a) (auto split: if_splits)
qed

lemma validateTldrawFile_Inr:
  assumes "validateTldrawFile f = Inr g"
  shows "g = f \<and> (\<exists>kvs rs. f = JObj kvs \<and> map_of kvs ''records'' = Some (JArr rs)
           \<and> validateRecords rs = None)"
proof -
  from assms obtain kvs where f: "f = JObj kvs"
    by (cases f) (auto simp: validateTldrawFile_def split: if_splits)
  from assms f show ?thesis
    by (auto simp: validateTldrawFile_def split: if_splits option.splits json.splits)
qed

lemma validate_returns_input: "validateTldrawFile f = Inr g \<Longrightarrow> g = f"
  using validateTldrawFile_Inr by blast

lemma map_of_obj_set:
  "map_of (obj_set k v kvs) k' = (if k' = k then Some v else map_of kvs k')"
  by (induction kvs) auto


lemma keys_obj_set_new:
  "k \<notin> fst ` set kvs \<Longrightarrow> obj_set k v kvs = kvs @ [(k, v)]"
  by (induction kvs) auto

lemma obj_set_same:
  "map_of kvs k = Some v \<Longrightarrow> obj_set k v kvs = kvs"
  by (induction kvs) (auto split: if_splits)

lemma findIndex_None: "(findIndex p xs = None) = (\<forall>x \<in> set xs. \<not> p x)"
  by (induction xs) auto

lemma findIndex_Some:
  "findIndex p xs = Some i \<Longrightarrow> i < length xs \<and> p (xs ! i) \<and> (\<forall>j < i. \<not> p (xs ! j))"
proof (induction xs arbitrary: i)
  case Nil
  then show ?case by simp
next
  case (Cons x xs)
  show ?case
  proof (cases "p x")
    case True
    with Cons.prems show ?thesis by simp
  next
    case False
    with Cons.prems obtain i' where i': "findIndex p xs = Some i'" "i = Suc i'" by auto
    from Cons.IH[OF i'(1)] False i'(2) show ?thesis
      by (auto simp: less_Suc_eq_0_disj)
  qed
qed

lemma filter_length_eq: "(length (filter p xs) = length xs) = (\<forall>x \<in> set xs. p x)"
  by (metis filter_id_conv length_filter_less less_irrefl_nat filter_True)


subsection \<open>The shape repository\<close>

lemma map_of_fold_obj_set:
  "distinct (map fst new) \<Longrightarrow>
   map_of (fold (\<lambda>(k, v) acc. obj_set k v acc) new old) k =
     (case map_of new k of Some v \<Rightarrow> Some v | None \<Rightarrow> map_of old k)"
proof (induction new arbitrary: old)
  case Nil
  then show ?case by simp
next
  case (Cons a new)
  obtain k1 v1 where a: "a = (k1, v1)" by (cases a)
  have d: "distinct (map fst new)" and nk: "k1 \<notin> fst ` set new" using Cons.prems a by auto
  have none: "map_of new k1 = None" using nk by (simp add: map_of_eq_None_iff)
  show ?case using Cons.IH[OF d, of "obj_set k1 v1 old"] a none
    by (auto simp: map_of_obj_set split: option.splits)
qed

text \<open>The one-level merge: the keys of the second operand win.\<close>

lemma spread2_merge:
  "distinct (map fst (spread new)) \<Longrightarrow>
   \<exists>merged. spread2 old new = JObj merged \<and>
     (\<forall>k. map_of merged k =
        (case map_of (spread new) k of Some v \<Rightarrow> Some v | None \<Rightarrow> map_of (spread old) k))"
  by (simp add: spread2_def map_of_fold_obj_set)

text \<open>One turn of the update loop, seen from the own properties of the record.\<close>

lemma mergeEntry_other:
  "k' \<noteq> k \<Longrightarrow> map_of (fst (mergeEntry (k, v) st)) k' = map_of (fst st) k'"
  by (simp add: mergeEntry_def assign_def map_of_obj_set)

lemma mergeEntry_plain:
  "k \<noteq> ''props'' \<Longrightarrow> k \<noteq> ''__proto__'' \<Longrightarrow> map_of (fst (mergeEntry (k, v) st)) k = Some v"
  by (simp add: mergeEntry_def assign_def map_of_obj_set)

lemma mergeEntry_props:
  "map_of (fst (mergeEntry (''props'', v) st)) ''props'' =
     Some (if typeof v = ''object'' \<and> truthy_opt (readProps st)
           then spread2 (case readProps st of Some p \<Rightarrow> p | None \<Rightarrow> JNull) v
           else v)"
  by (simp add: mergeEntry_def assign_def map_of_obj_set)

lemma mergeEntry_prototype:
  "k \<noteq> ''__proto__'' \<Longrightarrow> snd (mergeEntry (k, v) st) = snd st"
  by (simp add: mergeEntry_def assign_def)

lemma mergeEntry_proto_key:
  "map_of (fst st) ''__proto__'' = None \<Longrightarrow> reachesProtoSetter (snd st) \<Longrightarrow>
     fst (mergeEntry (''__proto__'', v) st) = fst st"
  by (simp add: mergeEntry_def assign_def)

lemma readProps_Some: "map_of (fst st) ''props'' = Some p \<Longrightarrow> readProps st = Some p"
  by (simp add: readProps_def)

lemma readProps_cong:
  "map_of (fst a) ''props'' = map_of (fst b) ''props'' \<Longrightarrow> snd a = snd b
     \<Longrightarrow> readProps a = readProps b"
  by (simp add: readProps_def split: option.splits)

text \<open>The whole loop.\<close>

lemma fold_mergeEntry_absent:
  "k' \<notin> fst ` set us \<Longrightarrow> map_of (fst (fold mergeEntry us st)) k' = map_of (fst st) k'"
proof (induction us arbitrary: st)
  case Nil
  then show ?case by simp
next
  case (Cons a us)
  obtain k v where a: "a = (k, v)" by (cases a)
  from Cons.prems a have ne: "k' \<noteq> k" and nk: "k' \<notin> fst ` set us" by auto
  show ?case using Cons.IH[OF nk, of "mergeEntry (k, v) st"] mergeEntry_other[OF ne] a by simp
qed

lemma fold_mergeEntry_prototype:
  "''__proto__'' \<notin> fst ` set us \<Longrightarrow> snd (fold mergeEntry us st) = snd st"
proof (induction us arbitrary: st)
  case Nil
  then show ?case by simp
next
  case (Cons a us)
  obtain k v where a: "a = (k, v)" by (cases a)
  from Cons.prems a have ne: "k \<noteq> ''__proto__''" and nk: "''__proto__'' \<notin> fst ` set us"
    by auto
  show ?case using Cons.IH[OF nk, of "mergeEntry (k, v) st"] mergeEntry_prototype[OF ne] a
    by simp
qed

lemma fold_mergeEntry_plain:
  assumes "distinct (map fst us)" and "(k, v) \<in> set us"
    and "k \<noteq> ''props''" and "k \<noteq> ''__proto__''"
  shows "map_of (fst (fold mergeEntry us st)) k = Some v"
  using assms(1,2)
proof (induction us arbitrary: st)
  case Nil
  then show ?case by simp
next
  case (Cons a us)
  show ?case
  proof (cases "a = (k, v)")
    case True
    with Cons.prems(1) have nk: "k \<notin> fst ` set us" by auto
    show ?thesis
      using fold_mergeEntry_absent[OF nk, of "mergeEntry (k, v) st"]
        mergeEntry_plain[OF assms(3,4)] True by simp
  next
    case False
    with Cons.prems have "distinct (map fst us)" "(k, v) \<in> set us" by auto
    from Cons.IH[OF this] show ?thesis by simp
  qed
qed

lemma fold_mergeEntry_props:
  assumes "distinct (map fst us)" and "(''props'', v) \<in> set us"
    and "map_of (fst st) ''props'' \<noteq> None \<or> ''__proto__'' \<notin> fst ` set us"
  shows "map_of (fst (fold mergeEntry us st)) ''props'' =
     Some (if typeof v = ''object'' \<and> truthy_opt (readProps st)
           then spread2 (case readProps st of Some p \<Rightarrow> p | None \<Rightarrow> JNull) v
           else v)"
  using assms
proof (induction us arbitrary: st)
  case Nil
  then show ?case by simp
next
  case (Cons a us)
  obtain k x where a: "a = (k, x)" by (cases a)
  show ?case
  proof (cases "a = (''props'', v)")
    case True
    with Cons.prems(1) have nk: "''props'' \<notin> fst ` set us" by auto
    show ?thesis
      using fold_mergeEntry_absent[OF nk, of "mergeEntry (''props'', v) st"]
        mergeEntry_props[of v st] True by simp
  next
    case False
    with Cons.prems have d: "distinct (map fst us)" and m: "(''props'', v) \<in> set us" by auto
    from Cons.prems(1) m a have ne: "k \<noteq> ''props''" by force
    define st1 where "st1 = mergeEntry (k, x) st"
    have own: "map_of (fst st1) ''props'' = map_of (fst st) ''props''"
      unfolding st1_def using mergeEntry_other[of "''props''" k x st] ne by simp
    have c: "map_of (fst st1) ''props'' \<noteq> None \<or> ''__proto__'' \<notin> fst ` set us"
      using Cons.prems(3) own by auto
    have rp: "readProps st1 = readProps st"
    proof (cases "map_of (fst st) ''props''")
      case (Some p)
      then show ?thesis using own readProps_Some[of st p] readProps_Some[of st1 p] by simp
    next
      case None
      with Cons.prems(3) a have "k \<noteq> ''__proto__''" by auto
      from mergeEntry_prototype[OF this, of x st] have "snd st1 = snd st"
        by (simp add: st1_def)
      with own show ?thesis by (rule readProps_cong)
    qed
    from Cons.IH[OF d m c] show ?thesis using a rp by (simp add: st1_def)
  qed
qed

lemma readProps_own:
  "readProps (kvs, ObjectPrototype) = map_of kvs ''props''"
  by (simp add: readProps_def split: option.splits)

text \<open>
  C6, as stated, fails in two places. A new \<^verbatim>\<open>props\<close> that is not of type object
  overwrites the old \<^verbatim>\<open>props\<close> whole, so the keys absent from it are not preserved: the
  loop merges only behind the guard \<^verbatim>\<open>typeof value === 'object' && shape.props\<close>. And
  the key \<^verbatim>\<open>__proto__\<close> of the updates overwrites nothing: the assignment reaches the
  accessor of \<^verbatim>\<open>Object.prototype\<close> and the record gets no such property.
\<close>

theorem updateShape_overwrites_props_and_skips_proto:
  "field example_shape ''props'' = Some (JObj [(''color'', JStr ''black''), (''fill'', JStr ''none'')])
   \<and> updateShape example_doc ''shape:s1'' (JObj [(''props'', JStr ''red'')])
       = Inr (JObj
          [(''tldrawFileFormatVersion'', JNum 1),
           (''schema'', JObj [(''schemaVersion'', JNum 2)]),
           (''records'', JArr [example_page,
              JObj [(''id'', JStr ''shape:s1''), (''typeName'', JStr ''shape''),
                    (''type'', JStr ''geo''), (''x'', JNum 10),
                    (''props'', JStr ''red'')]])])
   \<and> field example_shape ''__proto__'' = None
   \<and> updateShape example_doc ''shape:s1'' (JObj [(''__proto__'', JObj [(''x'', JNum 1)])])
       = Inr example_doc"
  by code_simp

text \<open>
  C6, amended. For every decoded document and every updates object (with distinct keys,
  as every object has): if no record has the identity, \<open>updateShape\<close> fails with
  \<open>ShapeNotFound\<close>. Otherwise it replaces the first record with that identity by a
  record in which every key of the updates other than \<^verbatim>\<open>props\<close> and \<^verbatim>\<open>__proto__\<close> holds
  the new value and every key absent from the updates holds its old value. When the new
  \<^verbatim>\<open>props\<close> is of type object (an object, an array or \<^verbatim>\<open>null\<close>) and the old \<^verbatim>\<open>props\<close> is
  truthy, \<^verbatim>\<open>props\<close> is merged one level deep: a key among the own properties of the new
  \<^verbatim>\<open>props\<close> holds the new value, every other key keeps what the old \<^verbatim>\<open>props\<close> had. A new
  \<^verbatim>\<open>props\<close> that is not of type object, or that meets a falsy \<^verbatim>\<open>props\<close>, or a record
  without \<^verbatim>\<open>props\<close> when the updates have no key \<^verbatim>\<open>__proto__\<close>, overwrites like any
  other key. Nothing is said of the key \<^verbatim>\<open>__proto__\<close> itself.
\<close>

theorem updateShape_merge:
  assumes "validateTldrawFile f = Inr f"
    and "field f ''records'' = Some (JArr rs)"
    and "distinct (map fst us)"
  shows "((\<forall>r \<in> set rs. field r ''id'' \<noteq> Some (JStr sid)) \<longrightarrow>
            updateShape f sid (JObj us) = Inl ShapeNotFound)
       \<and> ((\<exists>r \<in> set rs. field r ''id'' = Some (JStr sid)) \<longrightarrow>
            (\<exists>i r'. i < length rs
               \<and> field (rs ! i) ''id'' = Some (JStr sid)
               \<and> (\<forall>j < i. field (rs ! j) ''id'' \<noteq> Some (JStr sid))
               \<and> updateShape f sid (JObj us)
                    = Inr (set_field f ''records'' (JArr (rs[i := r'])))
               \<and> (\<forall>k v. map_of us k = Some v \<and> k \<noteq> ''props'' \<and> k \<noteq> ''__proto__''
                      \<longrightarrow> field r' k = Some v)
               \<and> (\<forall>k. map_of us k = None \<longrightarrow> field r' k = field (rs ! i) k)
               \<and> (\<forall>v old. map_of us ''props'' = Some v \<and> typeof v = ''object''
                      \<and> distinct (map fst (spread v))
                      \<and> field (rs ! i) ''props'' = Some old \<and> truthy old \<longrightarrow>
                    (\<exists>merged. field r' ''props'' = Some (JObj merged)
                       \<and> (\<forall>k. map_of merged k =
                             (case map_of (spread v) k of
                                Some x \<Rightarrow> Some x
                              | None \<Rightarrow> map_of (spread old) k))))
               \<and> (\<forall>v. map_of us ''props'' = Some v
                      \<and> (typeof v \<noteq> ''object''
                          \<or> (\<exists>old. field (rs ! i) ''props'' = Some old \<and> \<not> truthy old)
                          \<or> (field (rs ! i) ''props'' = None \<and> map_of us ''__proto__'' = None))
                      \<longrightarrow> field r' ''props'' = Some v)))"
proof (intro conjI impI)
  assume "\<forall>r \<in> set rs. field r ''id'' \<noteq> Some (JStr sid)"
  then have "findIndex (\<lambda>r. field r ''id'' = Some (JStr sid)) rs = None"
    by (simp add: findIndex_None)
  then show "updateShape f sid (JObj us) = Inl ShapeNotFound"
    using assms(2) by (simp add: updateShape_def)
next
  assume "\<exists>r \<in> set rs. field r ''id'' = Some (JStr sid)"
  then obtain i where i: "findIndex (\<lambda>r. field r ''id'' = Some (JStr sid)) rs = Some i"
    using findIndex_None[of "\<lambda>r. field r ''id'' = Some (JStr sid)" rs] by fastforce
  note fi = findIndex_Some[OF i]
  from validateTldrawFile_Inr[OF assms(1)] assms(2) have vr: "validateRecords rs = None"
    by auto
  from validateRecords_None[OF vr, of "rs ! i"] fi obtain kvs where kvs: "rs ! i = JObj kvs"
    by auto
  define st where "st = fold mergeEntry us (kvs, ObjectPrototype)"
  define r' where "r' = JObj (fst st)"
  have fr: "\<And>k. field r' k = map_of (fst st) k" by (simp add: r'_def)
  have fo: "\<And>k. field (rs ! i) k = map_of kvs k" by (simp add: kvs)
  have mem: "\<And>k v. map_of us k = Some v \<Longrightarrow> (k, v) \<in> set us"
    by (rule map_of_SomeD)
  have upd: "updateShape f sid (JObj us) = Inr (set_field f ''records'' (JArr (rs[i := r'])))"
    using assms(2) i kvs by (simp add: updateShape_def r'_def st_def)
  have a: "\<forall>k v. map_of us k = Some v \<and> k \<noteq> ''props'' \<and> k \<noteq> ''__proto__''
                      \<longrightarrow> field r' k = Some v"
    using fold_mergeEntry_plain[OF assms(3) mem, of _ _ "(kvs, ObjectPrototype)"]
    by (simp add: fr st_def)
  have b: "\<forall>k. map_of us k = None \<longrightarrow> field r' k = field (rs ! i) k"
    using fold_mergeEntry_absent[of _ us "(kvs, ObjectPrototype)"]
    by (simp add: fr fo st_def map_of_eq_None_iff)
  have p: "\<And>v. map_of us ''props'' = Some v \<Longrightarrow>
             map_of kvs ''props'' \<noteq> None \<or> map_of us ''__proto__'' = None \<Longrightarrow>
             field r' ''props'' =
               Some (if typeof v = ''object'' \<and> truthy_opt (map_of kvs ''props'')
                     then spread2 (case map_of kvs ''props'' of Some p \<Rightarrow> p | None \<Rightarrow> JNull) v
                     else v)"
  proof -
    fix v
    assume m: "map_of us ''props'' = Some v"
      and c: "map_of kvs ''props'' \<noteq> None \<or> map_of us ''__proto__'' = None"
    from c have c': "map_of (fst (kvs, ObjectPrototype)) ''props'' \<noteq> None
                       \<or> ''__proto__'' \<notin> fst ` set us"
      by (simp add: map_of_eq_None_iff)
    from fold_mergeEntry_props[OF assms(3) mem[OF m] c']
    show "field r' ''props'' =
               Some (if typeof v = ''object'' \<and> truthy_opt (map_of kvs ''props'')
                     then spread2 (case map_of kvs ''props'' of Some p \<Rightarrow> p | None \<Rightarrow> JNull) v
                     else v)"
      by (simp add: fr st_def readProps_own)
  qed
  have c: "\<forall>v old. map_of us ''props'' = Some v \<and> typeof v = ''object''
                      \<and> distinct (map fst (spread v))
                      \<and> field (rs ! i) ''props'' = Some old \<and> truthy old \<longrightarrow>
                    (\<exists>merged. field r' ''props'' = Some (JObj merged)
                       \<and> (\<forall>k. map_of merged k =
                             (case map_of (spread v) k of
                                Some x \<Rightarrow> Some x
                              | None \<Rightarrow> map_of (spread old) k)))"
  proof (intro allI impI)
    fix v old
    assume h: "map_of us ''props'' = Some v \<and> typeof v = ''object''
                      \<and> distinct (map fst (spread v))
                      \<and> field (rs ! i) ''props'' = Some old \<and> truthy old"
    then have "field r' ''props'' = Some (spread2 old v)"
      using p[of v] by (simp add: fo)
    with spread2_merge[of v old] h
    show "\<exists>merged. field r' ''props'' = Some (JObj merged)
                       \<and> (\<forall>k. map_of merged k =
                             (case map_of (spread v) k of
                                Some x \<Rightarrow> Some x
                              | None \<Rightarrow> map_of (spread old) k))"
      by auto
  qed
  have d: "\<forall>v. map_of us ''props'' = Some v
                      \<and> (typeof v \<noteq> ''object''
                          \<or> (\<exists>old. field (rs ! i) ''props'' = Some old \<and> \<not> truthy old)
                          \<or> (field (rs ! i) ''props'' = None \<and> map_of us ''__proto__'' = None))
                      \<longrightarrow> field r' ''props'' = Some v"
  proof (intro allI impI)
    fix v
    assume h: "map_of us ''props'' = Some v
                      \<and> (typeof v \<noteq> ''object''
                          \<or> (\<exists>old. field (rs ! i) ''props'' = Some old \<and> \<not> truthy old)
                          \<or> (field (rs ! i) ''props'' = None \<and> map_of us ''__proto__'' = None))"
    then have m: "map_of us ''props'' = Some v" by simp
    show "field r' ''props'' = Some v"
    proof (cases "typeof v = ''object''")
      case False
      have "(''props'', v) \<in> set us" by (rule mem[OF m])
      from split_list[OF this] obtain us1 us2 where u: "us = us1 @ (''props'', v) # us2"
        by blast
      with assms(3) have n2: "''props'' \<notin> fst ` set us2" by auto
      have "map_of (fst (mergeEntry (''props'', v) (fold mergeEntry us1 (kvs, ObjectPrototype))))
               ''props'' = Some v"
        using False by (simp add: mergeEntry_props)
      with fold_mergeEntry_absent[OF n2] show ?thesis
        by (simp add: fr st_def u)
    next
      case True
      with h have "(\<exists>old. map_of kvs ''props'' = Some old \<and> \<not> truthy old)
                 \<or> (map_of kvs ''props'' = None \<and> map_of us ''__proto__'' = None)"
        by (simp add: fo)
      then show ?thesis using p[OF m] by auto
    qed
  qed
  show "\<exists>i r'. i < length rs
               \<and> field (rs ! i) ''id'' = Some (JStr sid)
               \<and> (\<forall>j < i. field (rs ! j) ''id'' \<noteq> Some (JStr sid))
               \<and> updateShape f sid (JObj us)
                    = Inr (set_field f ''records'' (JArr (rs[i := r'])))
               \<and> (\<forall>k v. map_of us k = Some v \<and> k \<noteq> ''props'' \<and> k \<noteq> ''__proto__''
                      \<longrightarrow> field r' k = Some v)
               \<and> (\<forall>k. map_of us k = None \<longrightarrow> field r' k = field (rs ! i) k)
               \<and> (\<forall>v old. map_of us ''props'' = Some v \<and> typeof v = ''object''
                      \<and> distinct (map fst (spread v))
                      \<and> field (rs ! i) ''props'' = Some old \<and> truthy old \<longrightarrow>
                    (\<exists>merged. field r' ''props'' = Some (JObj merged)
                       \<and> (\<forall>k. map_of merged k =
                             (case map_of (spread v) k of
                                Some x \<Rightarrow> Some x
                              | None \<Rightarrow> map_of (spread old) k))))
               \<and> (\<forall>v. map_of us ''props'' = Some v
                      \<and> (typeof v \<noteq> ''object''
                          \<or> (\<exists>old. field (rs ! i) ''props'' = Some old \<and> \<not> truthy old)
                          \<or> (field (rs ! i) ''props'' = None \<and> map_of us ''__proto__'' = None))
                      \<longrightarrow> field r' ''props'' = Some v)"
    using fi upd a b c d by blast
qed

theorem updateShape_merge_witness:
  "validateTldrawFile example_doc = Inr example_doc
   \<and> field example_doc ''records'' = Some (JArr [example_page, example_shape])
   \<and> distinct (map fst [(''props'', JObj [(''color'', JStr ''red'')]), (''x'', JNum 5)])
   \<and> (\<exists>r \<in> set [example_page, example_shape]. field r ''id'' = Some (JStr ''shape:s1''))
   \<and> updateShape example_doc ''shape:s1''
        (JObj [(''props'', JObj [(''color'', JStr ''red'')]), (''x'', JNum 5)])
       \<noteq> Inl ShapeNotFound
   \<and> updateShape example_doc ''shape:s1''
        (JObj [(''props'', JObj [(''color'', JStr ''red'')]), (''x'', JNum 5)])
       = Inr (JObj
          [(''tldrawFileFormatVersion'', JNum 1),
           (''schema'', JObj [(''schemaVersion'', JNum 2)]),
           (''records'', JArr [example_page,
              JObj [(''id'', JStr ''shape:s1''), (''typeName'', JStr ''shape''),
                    (''type'', JStr ''geo''), (''x'', JNum 5),
                    (''props'', JObj [(''color'', JStr ''red''), (''fill'', JStr ''none'')])]])])
   \<and> updateShape example_doc ''shape:none'' (JObj [(''x'', JNum 5)]) = Inl ShapeNotFound
   \<and> updateShape example_doc ''shape:s1'' (JObj [(''props'', JNull)]) = Inr example_doc
   \<and> updateShape example_doc ''shape:s1'' (JObj [(''props'', JArr [JStr ''z''])])
       = Inr (JObj
          [(''tldrawFileFormatVersion'', JNum 1),
           (''schema'', JObj [(''schemaVersion'', JNum 2)]),
           (''records'', JArr [example_page,
              JObj [(''id'', JStr ''shape:s1''), (''typeName'', JStr ''shape''),
                    (''type'', JStr ''geo''), (''x'', JNum 10),
                    (''props'', JObj [(''color'', JStr ''black''), (''fill'', JStr ''none''),
                                      (''0'', JStr ''z'')])]])])"
proof -
  have v: "validateTldrawFile example_doc = Inr example_doc" by code_simp
  have r: "field example_doc ''records'' = Some (JArr [example_page, example_shape])"
    by code_simp
  have d: "distinct (map fst [(''props'', JObj [(''color'', JStr ''red'')]), (''x'', JNum 5)])"
    by simp
  have d': "distinct (map fst [(''x'', JNum 5)])" by simp
  have e: "\<exists>r \<in> set [example_page, example_shape]. field r ''id'' = Some (JStr ''shape:s1'')"
    by (simp add: example_shape_def)
  have n: "\<forall>r \<in> set [example_page, example_shape]. field r ''id'' \<noteq> Some (JStr ''shape:none'')"
    by (simp add: example_shape_def example_page_def)
  from updateShape_merge[OF v r d, of "''shape:s1''"] e
  have 1: "updateShape example_doc ''shape:s1''
        (JObj [(''props'', JObj [(''color'', JStr ''red'')]), (''x'', JNum 5)])
       \<noteq> Inl ShapeNotFound"
    by auto
  from updateShape_merge[OF v r d', of "''shape:none''"] n
  have 2: "updateShape example_doc ''shape:none'' (JObj [(''x'', JNum 5)]) = Inl ShapeNotFound"
    by blast
  have 3: "updateShape example_doc ''shape:s1''
        (JObj [(''props'', JObj [(''color'', JStr ''red'')]), (''x'', JNum 5)])
       = Inr (JObj
          [(''tldrawFileFormatVersion'', JNum 1),
           (''schema'', JObj [(''schemaVersion'', JNum 2)]),
           (''records'', JArr [example_page,
              JObj [(''id'', JStr ''shape:s1''), (''typeName'', JStr ''shape''),
                    (''type'', JStr ''geo''), (''x'', JNum 5),
                    (''props'', JObj [(''color'', JStr ''red''), (''fill'', JStr ''none'')])]])])"
    by code_simp
  have 4: "updateShape example_doc ''shape:s1'' (JObj [(''props'', JNull)]) = Inr example_doc"
    by code_simp
  have 5: "updateShape example_doc ''shape:s1'' (JObj [(''props'', JArr [JStr ''z''])])
       = Inr (JObj
          [(''tldrawFileFormatVersion'', JNum 1),
           (''schema'', JObj [(''schemaVersion'', JNum 2)]),
           (''records'', JArr [example_page,
              JObj [(''id'', JStr ''shape:s1''), (''typeName'', JStr ''shape''),
                    (''type'', JStr ''geo''), (''x'', JNum 10),
                    (''props'', JObj [(''color'', JStr ''black''), (''fill'', JStr ''none''),
                                      (''0'', JStr ''z'')])]])])"
    by code_simp
  show ?thesis using v r d e 1 2 3 4 5 by (intro conjI)
qed

text \<open>
  C10. For every decoded document, \<open>deleteShape\<close> and \<open>updateShape\<close> look for the
  identity among all records, whatever their type tag: each fails with \<open>ShapeNotFound\<close>
  exactly when no record has the identity; otherwise \<open>deleteShape\<close> removes the records
  with that identity and keeps the others in order, and \<open>updateShape\<close> replaces the first
  record with that identity by the merged one.
\<close>

theorem shape_located_by_identity:
  assumes "validateTldrawFile f = Inr f" and "field f ''records'' = Some (JArr rs)"
  shows "((deleteShape f rid = Inl ShapeNotFound)
           = (\<forall>r \<in> set rs. field r ''id'' \<noteq> Some (JStr rid)))
       \<and> ((updateShape f rid u = Inl ShapeNotFound)
           = (\<forall>r \<in> set rs. field r ''id'' \<noteq> Some (JStr rid)))
       \<and> ((\<exists>r \<in> set rs. field r ''id'' = Some (JStr rid)) \<longrightarrow>
           deleteShape f rid = Inr (set_field f ''records''
              (JArr (filter (\<lambda>r. field r ''id'' \<noteq> Some (JStr rid)) rs))))
       \<and> ((\<exists>r \<in> set rs. field r ''id'' = Some (JStr rid)) \<longrightarrow>
           (\<exists>i < length rs. field (rs ! i) ''id'' = Some (JStr rid)
              \<and> updateShape f rid u = Inr (set_field f ''records''
                   (JArr (rs[i := mergeUpdates (rs ! i) u])))))"
proof (intro conjI)
  show "(deleteShape f rid = Inl ShapeNotFound)
           = (\<forall>r \<in> set rs. field r ''id'' \<noteq> Some (JStr rid))"
    using assms(2) by (simp add: deleteShape_def Let_def filter_length_eq)
  show "(updateShape f rid u = Inl ShapeNotFound)
           = (\<forall>r \<in> set rs. field r ''id'' \<noteq> Some (JStr rid))"
  proof (cases "findIndex (\<lambda>r. field r ''id'' = Some (JStr rid)) rs")
    case None
    then show ?thesis using assms(2) by (simp add: updateShape_def findIndex_None[symmetric])
  next
    case (Some i)
    from findIndex_Some[OF Some] have "\<exists>r \<in> set rs. field r ''id'' = Some (JStr rid)"
      using nth_mem by blast
    then show ?thesis using assms(2) Some by (auto simp: updateShape_def)
  qed
  show "(\<exists>r \<in> set rs. field r ''id'' = Some (JStr rid)) \<longrightarrow>
           deleteShape f rid = Inr (set_field f ''records''
              (JArr (filter (\<lambda>r. field r ''id'' \<noteq> Some (JStr rid)) rs)))"
    using assms(2) by (auto simp: deleteShape_def Let_def filter_length_eq)
  show "(\<exists>r \<in> set rs. field r ''id'' = Some (JStr rid)) \<longrightarrow>
           (\<exists>i < length rs. field (rs ! i) ''id'' = Some (JStr rid)
              \<and> updateShape f rid u = Inr (set_field f ''records''
                   (JArr (rs[i := mergeUpdates (rs ! i) u]))))"
  proof
    assume "\<exists>r \<in> set rs. field r ''id'' = Some (JStr rid)"
    then obtain i where i: "findIndex (\<lambda>r. field r ''id'' = Some (JStr rid)) rs = Some i"
      using findIndex_None[of "\<lambda>r. field r ''id'' = Some (JStr rid)" rs] by fastforce
    from findIndex_Some[OF i] i assms(2)
    show "\<exists>i < length rs. field (rs ! i) ''id'' = Some (JStr rid)
              \<and> updateShape f rid u = Inr (set_field f ''records''
                   (JArr (rs[i := mergeUpdates (rs ! i) u])))"
      by (auto simp: updateShape_def)
  qed
qed

theorem shape_located_by_identity_witness:
  "validateTldrawFile example_doc = Inr example_doc
   \<and> field example_doc ''records'' = Some (JArr [example_page, example_shape])
   \<and> field example_page ''typeName'' = Some (JStr ''page'')
   \<and> (\<exists>r \<in> set [example_page, example_shape]. field r ''id'' = Some (JStr ''page:p1''))
   \<and> deleteShape example_doc ''page:p1''
       = Inr (JObj
          [(''tldrawFileFormatVersion'', JNum 1),
           (''schema'', JObj [(''schemaVersion'', JNum 2)]),
           (''records'', JArr [example_shape])])
   \<and> updateShape example_doc ''page:p1'' (JObj [(''name'', JStr ''Renamed'')])
       = Inr (JObj
          [(''tldrawFileFormatVersion'', JNum 1),
           (''schema'', JObj [(''schemaVersion'', JNum 2)]),
           (''records'', JArr
              [JObj [(''id'', JStr ''page:p1''), (''typeName'', JStr ''page''),
                     (''name'', JStr ''Renamed''), (''index'', JStr ''a1'')],
               example_shape])])
   \<and> deleteShape example_doc ''page:p1'' \<noteq> Inl ShapeNotFound
   \<and> updateShape example_doc ''page:p1'' (JObj [(''name'', JStr ''Renamed'')])
       \<noteq> Inl ShapeNotFound"
proof -
  have v: "validateTldrawFile example_doc = Inr example_doc" by code_simp
  have r: "field example_doc ''records'' = Some (JArr [example_page, example_shape])"
    by code_simp
  have t: "field example_page ''typeName'' = Some (JStr ''page'')" by code_simp
  have e: "\<exists>r \<in> set [example_page, example_shape]. field r ''id'' = Some (JStr ''page:p1'')"
    by (simp add: example_page_def)
  note th = shape_located_by_identity[OF v r, of "''page:p1''" "JObj [(''name'', JStr ''Renamed'')]"]
  from th e have 1: "deleteShape example_doc ''page:p1'' \<noteq> Inl ShapeNotFound"
    by blast
  from th e have 2: "updateShape example_doc ''page:p1'' (JObj [(''name'', JStr ''Renamed'')])
       \<noteq> Inl ShapeNotFound"
    by blast
  have 3: "deleteShape example_doc ''page:p1''
       = Inr (JObj
          [(''tldrawFileFormatVersion'', JNum 1),
           (''schema'', JObj [(''schemaVersion'', JNum 2)]),
           (''records'', JArr [example_shape])])"
    by code_simp
  have 4: "updateShape example_doc ''page:p1'' (JObj [(''name'', JStr ''Renamed'')])
       = Inr (JObj
          [(''tldrawFileFormatVersion'', JNum 1),
           (''schema'', JObj [(''schemaVersion'', JNum 2)]),
           (''records'', JArr
              [JObj [(''id'', JStr ''page:p1''), (''typeName'', JStr ''page''),
                     (''name'', JStr ''Renamed''), (''index'', JStr ''a1'')],
               example_shape])])"
    by code_simp
  show ?thesis using v r t e 1 2 3 4 by (intro conjI)
qed

text \<open>The record that \<open>addShape\<close> appends, given the parent reference it resolved.\<close>

lemma js_or_None: "js_or None b = b"
  by (simp add: js_or_def)

lemma js_or_truthy: "truthy v \<Longrightarrow> js_or (Some v) b = v"
  by (simp add: js_or_def)

lemma addShape_target:
  assumes "field f ''records'' = Some (JArr rs)"
    and "(if \<not> truthy_opt (map_option JStr pageId)
          then (case find (\<lambda>r. field r ''typeName'' = Some (JStr ''page'')) rs of
                  None \<Rightarrow> Inl NoPages
                | Some firstPage \<Rightarrow> Inr (field firstPage ''id''))
          else Inr (map_option JStr pageId)) = Inr (Some pid)"
  shows "addShape f shape pageId uuid =
     Inr (js_or (field shape ''id'') (JStr (''shape:'' @ take 8 uuid)),
          set_field f ''records'' (JArr (rs @ [JObj
            [(''id'', js_or (field shape ''id'') (JStr (''shape:'' @ take 8 uuid))),
             (''typeName'', JStr ''shape''),
             (''type'', js_or (field shape ''type'') (JStr ''geo'')),
             (''x'', js_or (field shape ''x'') (JNum 0)),
             (''y'', js_or (field shape ''y'') (JNum 0)),
             (''rotation'', js_or (field shape ''rotation'') (JNum 0)),
             (''isLocked'', JBool False),
             (''opacity'', JNum 1),
             (''parentId'', pid),
             (''index'', JStr (''a'' @ digits
                (length (filter (\<lambda>r. field r ''typeName'' = Some (JStr ''shape'')) rs) + 1))),
             (''meta'', JObj []),
             (''props'', js_or (field shape ''props'') defaultProps)]])))"
  unfolding addShape_def assms(1) using assms(2)
  by (simp add: Let_def slice_def)

lemma addShape_fields:
  assumes "r = JObj
            [(''id'', js_or (field shape ''id'') (JStr (''shape:'' @ take 8 uuid))),
             (''typeName'', JStr ''shape''),
             (''type'', js_or (field shape ''type'') (JStr ''geo'')),
             (''x'', js_or (field shape ''x'') (JNum 0)),
             (''y'', js_or (field shape ''y'') (JNum 0)),
             (''rotation'', js_or (field shape ''rotation'') (JNum 0)),
             (''isLocked'', JBool False),
             (''opacity'', JNum 1),
             (''parentId'', pid),
             (''index'', JStr (''a'' @ digits n)),
             (''meta'', JObj []),
             (''props'', js_or (field shape ''props'') defaultProps)]"
  shows "field r ''id'' = Some (js_or (field shape ''id'') (JStr (''shape:'' @ take 8 uuid)))"
    and "field r ''parentId'' = Some pid"
    and "field r ''typeName'' = Some (JStr ''shape'')"
    and "field shape ''type'' = None \<longrightarrow> field r ''type'' = Some (JStr ''geo'')"
    and "field shape ''x'' = None \<longrightarrow> field r ''x'' = Some (JNum 0)"
    and "field shape ''y'' = None \<longrightarrow> field r ''y'' = Some (JNum 0)"
    and "field shape ''rotation'' = None \<longrightarrow> field r ''rotation'' = Some (JNum 0)"
    and "field r ''isLocked'' = Some (JBool False)"
    and "field r ''opacity'' = Some (JNum 1)"
    and "field r ''index'' = Some (JStr (''a'' @ digits n))"
    and "field r ''meta'' = Some (JObj [])"
    and "field shape ''props'' = None \<longrightarrow> field r ''props'' = Some defaultProps"
  unfolding assms by (simp_all add: js_or_None)

text \<open>
  C7. For every decoded document and shape spec: \<open>addShape\<close> fails with \<open>NoPages\<close>
  when no page identity is given (none, or the empty string, which the code treats as
  none) and the document has no \<^verbatim>\<open>page\<close> record. Otherwise it appends one record at
  the end of the record sequence and returns its identity. The parent of the record is
  the given page identity, else the identity of the first \<^verbatim>\<open>page\<close> record in document
  order. The identity is the one of the spec when it has a truthy one, and is
  synthesized from the random value when the spec has none. Every field the spec omits
  gets its default: type \<^verbatim>\<open>geo\<close>, position and rotation 0, the default property set; the
  record is unlocked, has opacity 1, empty \<^verbatim>\<open>meta\<close>, and the ordering key \<^verbatim>\<open>a\<close> followed
  by the decimal of one more than the number of \<^verbatim>\<open>shape\<close> records before the append.
\<close>

theorem addShape_defaults:
  assumes "validateTldrawFile f = Inr f" and "field f ''records'' = Some (JArr rs)"
  shows "((pageId = None \<or> pageId = Some [])
            \<and> find (\<lambda>r. field r ''typeName'' = Some (JStr ''page'')) rs = None \<longrightarrow>
          addShape f shape pageId uuid = Inl NoPages)
       \<and> ((\<exists>p. pageId = Some p \<and> p \<noteq> [])
            \<or> find (\<lambda>r. field r ''typeName'' = Some (JStr ''page'')) rs \<noteq> None \<longrightarrow>
          (\<exists>sid r. addShape f shape pageId uuid
                      = Inr (sid, set_field f ''records'' (JArr (rs @ [r])))
             \<and> field r ''id'' = Some sid
             \<and> (field shape ''id'' = None \<longrightarrow> sid = JStr (''shape:'' @ take 8 uuid))
             \<and> (\<forall>v. field shape ''id'' = Some v \<and> truthy v \<longrightarrow> sid = v)
             \<and> (\<forall>p. pageId = Some p \<and> p \<noteq> [] \<longrightarrow> field r ''parentId'' = Some (JStr p))
             \<and> (\<forall>pg. (pageId = None \<or> pageId = Some [])
                   \<and> find (\<lambda>r. field r ''typeName'' = Some (JStr ''page'')) rs = Some pg \<longrightarrow>
                  field r ''parentId'' = field pg ''id'')
             \<and> field r ''typeName'' = Some (JStr ''shape'')
             \<and> (field shape ''type'' = None \<longrightarrow> field r ''type'' = Some (JStr ''geo''))
             \<and> (field shape ''x'' = None \<longrightarrow> field r ''x'' = Some (JNum 0))
             \<and> (field shape ''y'' = None \<longrightarrow> field r ''y'' = Some (JNum 0))
             \<and> (field shape ''rotation'' = None \<longrightarrow> field r ''rotation'' = Some (JNum 0))
             \<and> field r ''isLocked'' = Some (JBool False)
             \<and> field r ''opacity'' = Some (JNum 1)
             \<and> field r ''index'' = Some (JStr (''a'' @ digits
                  (length (filter (\<lambda>r. field r ''typeName'' = Some (JStr ''shape'')) rs) + 1)))
             \<and> field r ''meta'' = Some (JObj [])
             \<and> (field shape ''props'' = None \<longrightarrow> field r ''props'' = Some defaultProps)))"
proof (intro conjI impI)
  assume "(pageId = None \<or> pageId = Some [])
            \<and> find (\<lambda>r. field r ''typeName'' = Some (JStr ''page'')) rs = None"
  then show "addShape f shape pageId uuid = Inl NoPages"
    using assms(2) by (auto simp: addShape_def)
next
  assume h: "(\<exists>p. pageId = Some p \<and> p \<noteq> [])
            \<or> find (\<lambda>r. field r ''typeName'' = Some (JStr ''page'')) rs \<noteq> None"
  from validateTldrawFile_Inr[OF assms(1)] assms(2) have vr: "validateRecords rs = None"
    by auto
  have "\<exists>pid. (if \<not> truthy_opt (map_option JStr pageId)
          then (case find (\<lambda>r. field r ''typeName'' = Some (JStr ''page'')) rs of
                  None \<Rightarrow> Inl NoPages
                | Some firstPage \<Rightarrow> Inr (field firstPage ''id''))
          else Inr (map_option JStr pageId)) = Inr (Some pid)
        \<and> (\<forall>p. pageId = Some p \<and> p \<noteq> [] \<longrightarrow> pid = JStr p)
        \<and> (\<forall>pg. (pageId = None \<or> pageId = Some [])
              \<and> find (\<lambda>r. field r ''typeName'' = Some (JStr ''page'')) rs = Some pg \<longrightarrow>
              Some pid = field pg ''id'')"
  proof (cases "\<exists>p. pageId = Some p \<and> p \<noteq> []")
    case True
    then show ?thesis by auto
  next
    case False
    then have np: "pageId = None \<or> pageId = Some []" by (cases pageId) auto
    with h obtain pg where pg: "find (\<lambda>r. field r ''typeName'' = Some (JStr ''page'')) rs = Some pg"
      by auto
    then have "pg \<in> set rs" by (auto simp: find_Some_iff)
    from validateRecords_None[OF vr this] obtain v where v: "field pg ''id'' = Some v"
      by (cases "field pg ''id''") auto
    show ?thesis using np pg v by auto
  qed
  then obtain pid where t: "(if \<not> truthy_opt (map_option JStr pageId)
          then (case find (\<lambda>r. field r ''typeName'' = Some (JStr ''page'')) rs of
                  None \<Rightarrow> Inl NoPages
                | Some firstPage \<Rightarrow> Inr (field firstPage ''id''))
          else Inr (map_option JStr pageId)) = Inr (Some pid)"
    and p1: "\<forall>p. pageId = Some p \<and> p \<noteq> [] \<longrightarrow> pid = JStr p"
    and p2: "\<forall>pg. (pageId = None \<or> pageId = Some [])
              \<and> find (\<lambda>r. field r ''typeName'' = Some (JStr ''page'')) rs = Some pg \<longrightarrow>
              Some pid = field pg ''id''"
    by blast
  define sid where "sid = js_or (field shape ''id'') (JStr (''shape:'' @ take 8 uuid))"
  define r where "r = JObj
            [(''id'', js_or (field shape ''id'') (JStr (''shape:'' @ take 8 uuid))),
             (''typeName'', JStr ''shape''),
             (''type'', js_or (field shape ''type'') (JStr ''geo'')),
             (''x'', js_or (field shape ''x'') (JNum 0)),
             (''y'', js_or (field shape ''y'') (JNum 0)),
             (''rotation'', js_or (field shape ''rotation'') (JNum 0)),
             (''isLocked'', JBool False),
             (''opacity'', JNum 1),
             (''parentId'', pid),
             (''index'', JStr (''a'' @ digits
                (length (filter (\<lambda>r. field r ''typeName'' = Some (JStr ''shape'')) rs) + 1))),
             (''meta'', JObj []),
             (''props'', js_or (field shape ''props'') defaultProps)]"
  note fl = addShape_fields[OF r_def]
  have e: "addShape f shape pageId uuid = Inr (sid, set_field f ''records'' (JArr (rs @ [r])))"
    unfolding sid_def r_def by (rule addShape_target[OF assms(2) t])
  have s1: "field shape ''id'' = None \<longrightarrow> sid = JStr (''shape:'' @ take 8 uuid)"
    by (simp add: sid_def js_or_None)
  have s2: "\<forall>v. field shape ''id'' = Some v \<and> truthy v \<longrightarrow> sid = v"
    by (simp add: sid_def js_or_truthy)
  have q1: "\<forall>p. pageId = Some p \<and> p \<noteq> [] \<longrightarrow> field r ''parentId'' = Some (JStr p)"
    using p1 fl(2) by simp
  have q2: "\<forall>pg. (pageId = None \<or> pageId = Some [])
                   \<and> find (\<lambda>r. field r ''typeName'' = Some (JStr ''page'')) rs = Some pg \<longrightarrow>
                  field r ''parentId'' = field pg ''id''"
    using p2 fl(2) by simp
  have i: "field r ''id'' = Some sid" using fl(1) by (simp add: sid_def)
  show "\<exists>sid r. addShape f shape pageId uuid
                      = Inr (sid, set_field f ''records'' (JArr (rs @ [r])))
             \<and> field r ''id'' = Some sid
             \<and> (field shape ''id'' = None \<longrightarrow> sid = JStr (''shape:'' @ take 8 uuid))
             \<and> (\<forall>v. field shape ''id'' = Some v \<and> truthy v \<longrightarrow> sid = v)
             \<and> (\<forall>p. pageId = Some p \<and> p \<noteq> [] \<longrightarrow> field r ''parentId'' = Some (JStr p))
             \<and> (\<forall>pg. (pageId = None \<or> pageId = Some [])
                   \<and> find (\<lambda>r. field r ''typeName'' = Some (JStr ''page'')) rs = Some pg \<longrightarrow>
                  field r ''parentId'' = field pg ''id'')
             \<and> field r ''typeName'' = Some (JStr ''shape'')
             \<and> (field shape ''type'' = None \<longrightarrow> field r ''type'' = Some (JStr ''geo''))
             \<and> (field shape ''x'' = None \<longrightarrow> field r ''x'' = Some (JNum 0))
             \<and> (field shape ''y'' = None \<longrightarrow> field r ''y'' = Some (JNum 0))
             \<and> (field shape ''rotation'' = None \<longrightarrow> field r ''rotation'' = Some (JNum 0))
             \<and> field r ''isLocked'' = Some (JBool False)
             \<and> field r ''opacity'' = Some (JNum 1)
             \<and> field r ''index'' = Some (JStr (''a'' @ digits
                  (length (filter (\<lambda>r. field r ''typeName'' = Some (JStr ''shape'')) rs) + 1)))
             \<and> field r ''meta'' = Some (JObj [])
             \<and> (field shape ''props'' = None \<longrightarrow> field r ''props'' = Some defaultProps)"
  proof (rule exI[of _ sid], rule exI[of _ r], intro conjI)
    show "addShape f shape pageId uuid = Inr (sid, set_field f ''records'' (JArr (rs @ [r])))"
      by (rule e)
  qed (fact i s1 s2 q1 q2 fl(3-12))+
qed

theorem addShape_defaults_witness:
  "validateTldrawFile example_doc = Inr example_doc
   \<and> field example_doc ''records'' = Some (JArr [example_page, example_shape])
   \<and> find (\<lambda>r. field r ''typeName'' = Some (JStr ''page'')) [example_page, example_shape]
       = Some example_page
   \<and> addShape example_doc (JObj []) None ''0123456789abcdef'' \<noteq> Inl NoPages
   \<and> addShape example_doc (JObj []) None ''0123456789abcdef''
       = Inr (JStr ''shape:01234567'',
              JObj
               [(''tldrawFileFormatVersion'', JNum 1),
                (''schema'', JObj [(''schemaVersion'', JNum 2)]),
                (''records'', JArr [example_page, example_shape,
                   JObj [(''id'', JStr ''shape:01234567''), (''typeName'', JStr ''shape''),
                         (''type'', JStr ''geo''), (''x'', JNum 0), (''y'', JNum 0),
                         (''rotation'', JNum 0), (''isLocked'', JBool False),
                         (''opacity'', JNum 1), (''parentId'', JStr ''page:p1''),
                         (''index'', JStr ''a2''), (''meta'', JObj []),
                         (''props'', defaultProps)]])])
   \<and> validateTldrawFile
         (JObj [(''tldrawFileFormatVersion'', JNum 1), (''schema'', JObj []),
                (''records'', JArr [])])
       = Inr (JObj [(''tldrawFileFormatVersion'', JNum 1), (''schema'', JObj []),
                    (''records'', JArr [])])
   \<and> addShape
         (JObj [(''tldrawFileFormatVersion'', JNum 1), (''schema'', JObj []),
                (''records'', JArr [])])
         (JObj []) None ''0123456789abcdef'' = Inl NoPages"
proof -
  let ?empty = "JObj [(''tldrawFileFormatVersion'', JNum 1), (''schema'', JObj []),
                (''records'', JArr [])]"
  have v: "validateTldrawFile example_doc = Inr example_doc" by code_simp
  have r: "field example_doc ''records'' = Some (JArr [example_page, example_shape])"
    by code_simp
  have p: "find (\<lambda>r. field r ''typeName'' = Some (JStr ''page'')) [example_page, example_shape]
       = Some example_page"
    by (simp add: example_page_def)
  have v0: "validateTldrawFile ?empty = Inr ?empty" by code_simp
  have r0: "field ?empty ''records'' = Some (JArr [])" by simp
  from addShape_defaults[OF v r, of None "JObj []" "''0123456789abcdef''"] p
  have 1: "addShape example_doc (JObj []) None ''0123456789abcdef'' \<noteq> Inl NoPages"
    by auto
  from addShape_defaults[OF v0 r0, of None "JObj []" "''0123456789abcdef''"]
  have 2: "addShape ?empty (JObj []) None ''0123456789abcdef'' = Inl NoPages"
    by simp
  have 3: "addShape example_doc (JObj []) None ''0123456789abcdef''
       = Inr (JStr ''shape:01234567'',
              JObj
               [(''tldrawFileFormatVersion'', JNum 1),
                (''schema'', JObj [(''schemaVersion'', JNum 2)]),
                (''records'', JArr [example_page, example_shape,
                   JObj [(''id'', JStr ''shape:01234567''), (''typeName'', JStr ''shape''),
                         (''type'', JStr ''geo''), (''x'', JNum 0), (''y'', JNum 0),
                         (''rotation'', JNum 0), (''isLocked'', JBool False),
                         (''opacity'', JNum 1), (''parentId'', JStr ''page:p1''),
                         (''index'', JStr ''a2''), (''meta'', JObj []),
                         (''props'', defaultProps)]])])"
    by code_simp
  show ?thesis using v r p 1 3 v0 2 by (intro conjI)
qed

subsection \<open>Writing a document file\<close>

lemma endsWith_tldr_not_md: "endsWith fp ''.tldr'' \<Longrightarrow> \<not> endsWith fp ''.md''"
proof
  assume a: "endsWith fp ''.tldr''" and b: "endsWith fp ''.md''"
  from a have "last fp = CHR ''r''" by (auto simp: endsWith_def suffix_def)
  moreover from b have "last fp = CHR ''d''" by (auto simp: endsWith_def suffix_def)
  ultimately show False by simp
qed

lemma lastIndexOf_lt: "lastIndexOf s c = Some i \<Longrightarrow> i < length s"
  by (cases s) (auto simp: lastIndexOf_def split: if_splits)

text \<open>The directory that a write to a document file ensures is never the file itself.\<close>

lemma dir_neq_file:
  assumes "endsWith fp ''.tldr''"
  shows "(case lastIndexOf fp CHR ''/'' of Some i \<Rightarrow> slice fp 0 i | None \<Rightarrow> []) \<noteq> fp"
proof (cases "lastIndexOf fp CHR ''/''")
  case None
  from assms have "fp \<noteq> []" by (auto simp: endsWith_def suffix_def)
  with None show ?thesis by simp
next
  case (Some i)
  from lastIndexOf_lt[OF Some] have "length (slice fp 0 i) < length fp"
    by (simp add: slice_def)
  then show ?thesis using Some by auto
qed

lemma ensureDir_other:
  "ensureDir fs dir = Inr fs1 \<Longrightarrow> dir \<noteq> p \<Longrightarrow> fs1 p = fs p"
  by (auto simp: ensureDir_def mkdir_def split: if_splits)

lemma getWrapped_cong:
  "fs1 fp = fs fp \<Longrightarrow>
   getWrappedContainerForTldraw P fs1 fp = getWrappedContainerForTldraw P fs fp"
  by (simp add: getWrappedContainerForTldraw_def existsSync_def readFile_def)

text \<open>The write to a document file, once the path and the input are accepted.\<close>

lemma tldrawWrite_tldr:
  assumes "securePath P path = Inr fp"
    and "endsWith fp ''.tldr''"
    and "(case c of Text s \<Rightarrow> parseJsonContent P s | Object v \<Rightarrow> Inr v) = Inr v"
    and "normalizeTldrawPayload v = Inr (d, ic)"
  shows "tldrawWrite P fs path c =
     (case ensureDir fs (case lastIndexOf fp CHR ''/'' of Some i \<Rightarrow> slice fp 0 i | None \<Rightarrow> []) of
        Inl e \<Rightarrow> (Inl e, fs)
      | Inr fs1 \<Rightarrow>
          (case writeFile fs1 fp
                  (JSON_stringify P
                     (outputContent (orElse (getWrappedContainerForTldraw P fs fp) ic) d)) of
             Inl e \<Rightarrow> (Inl e, fs1)
           | Inr fs' \<Rightarrow> (Inr (''Successfully wrote: '' @ path), fs')))"
proof (cases "ensureDir fs (case lastIndexOf fp CHR ''/'' of Some i \<Rightarrow> slice fp 0 i | None \<Rightarrow> [])")
  case (Inl e)
  then show ?thesis
    using assms endsWith_tldr_not_md[OF assms(2)]
    by (simp add: tldrawWrite_def isReadableTldrawPath_def Let_def)
next
  case (Inr fs1)
  from ensureDir_other[OF Inr dir_neq_file[OF assms(2)]]
  have "getWrappedContainerForTldraw P fs1 fp = getWrappedContainerForTldraw P fs fp"
    by (rule getWrapped_cong)
  then show ?thesis
    using assms endsWith_tldr_not_md[OF assms(2)] Inr
    by (simp add: tldrawWrite_def isReadableTldrawPath_def Let_def)
qed



lemma normalize_cases:
  assumes "normalizeTldrawPayload v = Inr (d, ic)"
  shows "(ic = None \<and> d = v \<and> field v ''raw'' = None \<and> validateTldrawFile v = Inr v)
       \<or> (ic = Some v \<and> field v ''raw'' = Some d \<and> validateTldrawFile d = Inr d)"
  using assms
  by (auto simp: normalizeTldrawPayload_def split: if_splits option.splits sum.splits
        dest: validate_returns_input)

lemma outputContent_input:
  assumes "normalizeTldrawPayload v = Inr (d, ic)"
  shows "outputContent ic d = v"
proof -
  from normalize_cases[OF assms] show ?thesis
  proof
    assume "ic = None \<and> d = v \<and> field v ''raw'' = None \<and> validateTldrawFile v = Inr v"
    then show ?thesis by (simp add: outputContent_def)
  next
    assume h: "ic = Some v \<and> field v ''raw'' = Some d \<and> validateTldrawFile d = Inr d"
    then obtain kvs where "v = JObj kvs" by (cases v) auto
    with h show ?thesis by (simp add: outputContent_def obj_set_same)
  qed
qed




lemma orElse_None: "orElse None b = b"
  by (simp add: orElse_def)

lemma ensureDir_error: "ensureDir fs p = Inl e \<Longrightarrow> e = IOError"
  by (auto simp: ensureDir_def mkdir_def split: if_splits)

lemma writeFile_error: "writeFile fs p c = Inl e \<Longrightarrow> e = IOError"
  by (auto simp: writeFile_def split: option.splits node.splits)

lemma getWrapped_None:
  assumes "fs fp = None \<or> fs fp = Some Dir
       \<or> (\<exists>old. fs fp = Some (File old)
             \<and> (JSON_parse P old = None
                \<or> (\<exists>x. JSON_parse P old = Some x
                      \<and> \<not> (truthy x \<and> typeof x = ''object'' \<and> has_key ''raw'' x
                            \<and> typeof_opt (field x ''raw'') = ''object''))))"
  shows "getWrappedContainerForTldraw P fs fp = None"
  using assms
  by (auto simp: getWrappedContainerForTldraw_def existsSync_def readFile_def
        parseJsonContent_def)










text \<open>
  C4, as stated, fails for the embedded format: there the existing block is located,
  parsed and validated with calls that raise, and each failure ends the write. A text
  without delimiters, a block that is not JSON and a block that holds no document each
  make the write of a valid document fail.
\<close>

theorem embedded_write_fails_on_existing_content:
  "fst (tldrawWrite (posix ''/r'' ''/r'')
          ((\<lambda>p. None)(''/r/n.md'' \<mapsto> File ''no block here''))
          ''n.md'' (Object example_doc)) = Inl MissingBlock
   \<and> fst (tldrawWrite (posix ''/r'' ''/r'')
          ((\<lambda>p. None)(''/r/n.md'' \<mapsto> File
             (MARKDOWN_TLDRAW_START_MARKER @ ''oops'' @ MARKDOWN_TLDRAW_END_MARKER)))
          ''n.md'' (Object example_doc)) = Inl MalformedContent
   \<and> fst (tldrawWrite (posix ''/r'' ''/r'')
          ((\<lambda>p. None)(''/r/n.md'' \<mapsto> File
             (MARKDOWN_TLDRAW_START_MARKER @ ''{}'' @ MARKDOWN_TLDRAW_END_MARKER)))
          ''n.md'' (Object example_doc)) = Inl InvalidDocument"
  by code_simp

text \<open>
  C4, amended to the plain and wrapped JSON format. For every write to a document file
  (\<^verbatim>\<open>.tldr\<close>) whose path and input are accepted, the only failures left are rejected
  file-system calls, whatever stands at the path. When nothing stands there, or a
  directory, or a file whose content does not parse, or parses to something that is
  not an object with a \<^verbatim>\<open>raw\<close> property of type object, the recovery yields no
  container and the write goes on with the container of the input alone.
\<close>

theorem container_recovery_best_effort:
  assumes "securePath P path = Inr fp"
    and "endsWith fp ''.tldr''"
    and "(case c of Text s \<Rightarrow> parseJsonContent P s | Object v \<Rightarrow> Inr v) = Inr v"
    and "normalizeTldrawPayload v = Inr (d, ic)"
  shows "(\<forall>e. fst (tldrawWrite P fs path c) = Inl e \<longrightarrow> e = IOError)
       \<and> (fs fp = None \<or> fs fp = Some Dir
           \<or> (\<exists>old. fs fp = Some (File old)
                 \<and> (JSON_parse P old = None
                    \<or> (\<exists>x. JSON_parse P old = Some x
                          \<and> \<not> (truthy x \<and> typeof x = ''object'' \<and> has_key ''raw'' x
                                \<and> typeof_opt (field x ''raw'') = ''object''))))
          \<longrightarrow> getWrappedContainerForTldraw P fs fp = None
            \<and> tldrawWrite P fs path c =
                (case ensureDir fs (case lastIndexOf fp CHR ''/'' of
                                      Some i \<Rightarrow> slice fp 0 i | None \<Rightarrow> []) of
                   Inl e \<Rightarrow> (Inl e, fs)
                 | Inr fs1 \<Rightarrow>
                     (case writeFile fs1 fp (JSON_stringify P (outputContent ic d)) of
                        Inl e \<Rightarrow> (Inl e, fs1)
                      | Inr fs' \<Rightarrow> (Inr (''Successfully wrote: '' @ path), fs'))))"
proof (intro conjI allI impI)
  fix e
  assume "fst (tldrawWrite P fs path c) = Inl e"
  then show "e = IOError"
    unfolding tldrawWrite_tldr[OF assms]
    by (auto split: sum.splits dest: ensureDir_error writeFile_error)
next
  assume h: "fs fp = None \<or> fs fp = Some Dir
           \<or> (\<exists>old. fs fp = Some (File old)
                 \<and> (JSON_parse P old = None
                    \<or> (\<exists>x. JSON_parse P old = Some x
                          \<and> \<not> (truthy x \<and> typeof x = ''object'' \<and> has_key ''raw'' x
                                \<and> typeof_opt (field x ''raw'') = ''object''))))"
  show g: "getWrappedContainerForTldraw P fs fp = None"
    by (rule getWrapped_None[where fs=fs and fp=fp, OF h])
  show "tldrawWrite P fs path c =
                (case ensureDir fs (case lastIndexOf fp CHR ''/'' of
                                      Some i \<Rightarrow> slice fp 0 i | None \<Rightarrow> []) of
                   Inl e \<Rightarrow> (Inl e, fs)
                 | Inr fs1 \<Rightarrow>
                     (case writeFile fs1 fp (JSON_stringify P (outputContent ic d)) of
                        Inl e \<Rightarrow> (Inl e, fs1)
                      | Inr fs' \<Rightarrow> (Inr (''Successfully wrote: '' @ path), fs')))"
    unfolding tldrawWrite_tldr[OF assms] g orElse_None by (rule refl)
qed



theorem container_recovery_best_effort_witness:
  "securePath (posix ''/r'' ''/r'') ''a.tldr'' = Inr ''/r/a.tldr''
   \<and> endsWith ''/r/a.tldr'' ''.tldr''
   \<and> normalizeTldrawPayload example_doc = Inr (example_doc, None)
   \<and> JSON_parse (posix ''/r'' ''/r'') ''{not json'' = None
   \<and> getWrappedContainerForTldraw (posix ''/r'' ''/r'')
        ((\<lambda>p. None)(''/r/a.tldr'' \<mapsto> File ''{not json'')) ''/r/a.tldr'' = None
   \<and> fst (tldrawWrite (posix ''/r'' ''/r'')
        ((\<lambda>p. None)(''/r/a.tldr'' \<mapsto> File ''{not json'')) ''a.tldr'' (Object example_doc))
       = Inr ''Successfully wrote: a.tldr''
   \<and> snd (tldrawWrite (posix ''/r'' ''/r'')
        ((\<lambda>p. None)(''/r/a.tldr'' \<mapsto> File ''{not json'')) ''a.tldr'' (Object example_doc))
        ''/r/a.tldr''
       = Some (File (json_stringify example_doc))"
proof -
  let ?P = "posix ''/r'' ''/r''"
  let ?fs = "(\<lambda>p. None)(''/r/a.tldr'' \<mapsto> File ''{not json'')"
  have 1: "securePath ?P ''a.tldr'' = Inr ''/r/a.tldr''" by code_simp
  have 2: "endsWith ''/r/a.tldr'' ''.tldr''" by code_simp
  have 3: "(case Object example_doc of Text s \<Rightarrow> parseJsonContent ?P s | Object v \<Rightarrow> Inr v)
             = Inr example_doc"
    by simp
  have 4: "normalizeTldrawPayload example_doc = Inr (example_doc, None)" by code_simp
  have 5: "JSON_parse ?P ''{not json'' = None" by code_simp
  have h: "?fs ''/r/a.tldr'' = None \<or> ?fs ''/r/a.tldr'' = Some Dir
       \<or> (\<exists>old. ?fs ''/r/a.tldr'' = Some (File old)
             \<and> (JSON_parse ?P old = None
                \<or> (\<exists>x. JSON_parse ?P old = Some x
                      \<and> \<not> (truthy x \<and> typeof x = ''object'' \<and> has_key ''raw'' x
                            \<and> typeof_opt (field x ''raw'') = ''object''))))"
    using 5 by simp
  from container_recovery_best_effort[where fs="?fs" and fp="''/r/a.tldr''", OF 1 2 3 4] h
  have 6: "getWrappedContainerForTldraw ?P ?fs ''/r/a.tldr'' = None"
    by blast
  have 7: "fst (tldrawWrite ?P ?fs ''a.tldr'' (Object example_doc))
       = Inr ''Successfully wrote: a.tldr''"
    by code_simp
  have 8: "snd (tldrawWrite ?P ?fs ''a.tldr'' (Object example_doc)) ''/r/a.tldr''
       = Some (File (json_stringify example_doc))"
    by code_simp
  show ?thesis using 1 2 4 5 6 7 8 by (intro conjI)
qed

subsection \<open>Writing into an embedded block\<close>

lemma filter_ge_upt: "filter (\<lambda>i. k \<le> i) [0..<n] = [k..<n]"
proof (induction n)
  case 0
  then show ?case by simp
next
  case (Suc n)
  then show ?case by (cases "k \<le> n") auto
qed

lemma occurrences_from_filter:
  "occurrences_from pat s k = filter (\<lambda>i. k \<le> i) (occurrences pat s)"
proof -
  have "filter (\<lambda>i. k \<le> i) (occurrences pat s)
          = filter (\<lambda>i. prefix pat (drop i s)) (filter (\<lambda>i. k \<le> i) [0..<Suc (length s)])"
    unfolding occurrences_def occurrences_from_def filter_filter
    by (rule filter_cong) auto
  then show ?thesis
    unfolding filter_ge_upt by (simp add: occurrences_from_def)
qed

lemma occurrence_splits:
  assumes "i \<in> set (occurrences pat s)"
  shows "take (i + length pat) s = take i s @ pat"
    and "drop i s = pat @ drop (i + length pat) s"
proof -
  from assms have p: "prefix pat (drop i s)"
    unfolding occurrences_def occurrences_from_def set_filter by simp
  then obtain r where r: "drop i s = pat @ r" by (auto simp: prefix_def)
  have "take (i + length pat) s = take i s @ take (length pat) (drop i s)"
    by (simp add: take_add)
  with r show "take (i + length pat) s = take i s @ pat" by simp
  have "drop (i + length pat) s = drop (length pat) (drop i s)"
    by (simp add: add.commute)
  with r show "drop i s = pat @ drop (i + length pat) s" by simp
qed

text \<open>The block of a text that holds each delimiter once, the start before the end.\<close>

lemma locate_unique:
  assumes "occurrences MARKDOWN_TLDRAW_START_MARKER old = [s]"
    and "occurrences MARKDOWN_TLDRAW_END_MARKER old = [e]"
    and "s + length MARKDOWN_TLDRAW_START_MARKER \<le> e"
    and "locateMarkdownTldrawBlock old = Inr block"
  shows "jsonStart block = s + length MARKDOWN_TLDRAW_START_MARKER \<and> jsonEnd block = e"
proof -
  have 1: "occurrences_from MARKDOWN_TLDRAW_START_MARKER old
             (s + length MARKDOWN_TLDRAW_START_MARKER) = []"
    using START_nonempty by (simp add: occurrences_from_filter assms(1))
  have 2: "occurrences_from MARKDOWN_TLDRAW_END_MARKER old
             (s + length MARKDOWN_TLDRAW_START_MARKER) = [e]"
    using assms(3) by (simp add: occurrences_from_filter assms(2))
  have 3: "occurrences_from MARKDOWN_TLDRAW_END_MARKER old
             (e + length MARKDOWN_TLDRAW_END_MARKER) = []"
    using END_nonempty by (simp add: occurrences_from_filter assms(2))
  from assms(4) show ?thesis
    by (auto simp: locate_by_occurrences locateBlock_spec_def assms(1) 1 2 3
          split: if_splits)
qed

text \<open>The write into an embedded document either fails and leaves the file system as it
  was, or replaces the text between the recorded offsets.\<close>

lemma tldrawWrite_md:
  assumes "securePath P path = Inr fp"
    and "endsWith fp ''.md''"
    and "fs fp = Some (File old)"
  shows "(\<exists>err. tldrawWrite P fs path c = (Inl err, fs))
       \<or> (\<exists>block payload. locateMarkdownTldrawBlock old = Inr block
            \<and> tldrawWrite P fs path c =
                (Inr (''Successfully wrote: '' @ path),
                 fs(fp \<mapsto> File (take (jsonStart block) old @ [CHR 0x0A]
                                  @ JSON_stringify P payload @ [CHR 0x0A]
                                  @ drop (jsonEnd block) old))))"
proof -
  have w: "\<And>t. writeFile fs fp t = Inr (fs(fp \<mapsto> File t))"
    using assms(3) by (simp add: writeFile_def)
  show ?thesis
    using assms
    by (auto simp: tldrawWrite_def isReadableTldrawPath_def existsSync_def readFile_def
          Let_def w slice_def slice_from_def
          split: sum.splits content.splits)
qed

text \<open>
  C3. For every embedded-format file (\<^verbatim>\<open>.md\<close>) whose text holds the start delimiter
  exactly once, at \<open>s\<close>, and the end delimiter exactly once, at \<open>e\<close>, after the start
  delimiter, and for every write input: the write either fails and leaves the file
  system as it was, or stores a text that is equal to the old one before the start
  delimiter and after the end delimiter, with both delimiters in place; only the text
  between them is new.
\<close>

theorem embedded_write_preserves_surroundings:
  assumes "securePath P path = Inr fp"
    and "endsWith fp ''.md''"
    and "fs fp = Some (File old)"
    and "occurrences MARKDOWN_TLDRAW_START_MARKER old = [s]"
    and "occurrences MARKDOWN_TLDRAW_END_MARKER old = [e]"
    and "s + length MARKDOWN_TLDRAW_START_MARKER \<le> e"
  shows "(\<exists>err. tldrawWrite P fs path c = (Inl err, fs))
       \<or> (\<exists>mid. tldrawWrite P fs path c =
             (Inr (''Successfully wrote: '' @ path),
              fs(fp \<mapsto> File (take s old @ MARKDOWN_TLDRAW_START_MARKER @ mid
                               @ MARKDOWN_TLDRAW_END_MARKER
                               @ drop (e + length MARKDOWN_TLDRAW_END_MARKER) old))))"
proof -
  from tldrawWrite_md[where fs=fs and fp=fp and c=c, OF assms(1-3)] show ?thesis
  proof
    assume "\<exists>err. tldrawWrite P fs path c = (Inl err, fs)"
    then show ?thesis by blast
  next
    assume "\<exists>block payload. locateMarkdownTldrawBlock old = Inr block
            \<and> tldrawWrite P fs path c =
                (Inr (''Successfully wrote: '' @ path),
                 fs(fp \<mapsto> File (take (jsonStart block) old @ [CHR 0x0A]
                                  @ JSON_stringify P payload @ [CHR 0x0A]
                                  @ drop (jsonEnd block) old)))"
    then obtain block payload where b: "locateMarkdownTldrawBlock old = Inr block"
      and w: "tldrawWrite P fs path c =
                (Inr (''Successfully wrote: '' @ path),
                 fs(fp \<mapsto> File (take (jsonStart block) old @ [CHR 0x0A]
                                  @ JSON_stringify P payload @ [CHR 0x0A]
                                  @ drop (jsonEnd block) old)))"
      by blast
    from locate_unique[OF assms(4-6) b]
    have js: "jsonStart block = s + length MARKDOWN_TLDRAW_START_MARKER"
      and je: "jsonEnd block = e" by simp_all
    have t: "take (jsonStart block) old = take s old @ MARKDOWN_TLDRAW_START_MARKER"
      unfolding js by (rule occurrence_splits(1)) (simp add: assms(4))
    have d: "drop (jsonEnd block) old
               = MARKDOWN_TLDRAW_END_MARKER @ drop (e + length MARKDOWN_TLDRAW_END_MARKER) old"
      unfolding je by (rule occurrence_splits(2)) (simp add: assms(5))
    have "tldrawWrite P fs path c =
             (Inr (''Successfully wrote: '' @ path),
              fs(fp \<mapsto> File (take s old @ MARKDOWN_TLDRAW_START_MARKER
                               @ ([CHR 0x0A] @ JSON_stringify P payload @ [CHR 0x0A])
                               @ MARKDOWN_TLDRAW_END_MARKER
                               @ drop (e + length MARKDOWN_TLDRAW_END_MARKER) old)))"
      unfolding w t d by simp
    then show ?thesis by blast
  qed
qed

theorem embedded_write_preserves_surroundings_witness:
  "securePath (posix ''/r'' ''/r'') ''n.md'' = Inr ''/r/n.md''
   \<and> endsWith ''/r/n.md'' ''.md''
   \<and> occurrences MARKDOWN_TLDRAW_START_MARKER example_markdown = [6]
   \<and> occurrences MARKDOWN_TLDRAW_END_MARKER example_markdown = [128]
   \<and> 6 + length MARKDOWN_TLDRAW_START_MARKER \<le> (128 :: nat)
   \<and> take 6 example_markdown = ''intro ''
   \<and> drop (128 + length MARKDOWN_TLDRAW_END_MARKER) example_markdown = '' outro''
   \<and> fst (tldrawWrite (posix ''/r'' ''/r'')
             ((\<lambda>p. None)(''/r/n.md'' \<mapsto> File example_markdown)) ''n.md'' (Object example_doc))
       = Inr ''Successfully wrote: n.md''
   \<and> (\<exists>mid. snd (tldrawWrite (posix ''/r'' ''/r'')
             ((\<lambda>p. None)(''/r/n.md'' \<mapsto> File example_markdown)) ''n.md'' (Object example_doc))
           ''/r/n.md''
         = Some (File (''intro '' @ MARKDOWN_TLDRAW_START_MARKER @ mid
                        @ MARKDOWN_TLDRAW_END_MARKER @ '' outro'')))"
proof -
  let ?P = "posix ''/r'' ''/r''"
  let ?fs = "(\<lambda>p. None)(''/r/n.md'' \<mapsto> File example_markdown)"
  have 1: "securePath ?P ''n.md'' = Inr ''/r/n.md''" by code_simp
  have 2: "endsWith ''/r/n.md'' ''.md''" by code_simp
  have 3: "?fs ''/r/n.md'' = Some (File example_markdown)" by simp
  have 4: "occurrences MARKDOWN_TLDRAW_START_MARKER example_markdown = [6]" by code_simp
  have 5: "occurrences MARKDOWN_TLDRAW_END_MARKER example_markdown = [128]" by code_simp
  have 6: "6 + length MARKDOWN_TLDRAW_START_MARKER \<le> (128 :: nat)"
    by (simp add: MARKDOWN_TLDRAW_START_MARKER_def)
  have 7: "take 6 example_markdown = ''intro ''" by (simp add: example_markdown_def)
  have 8: "drop (128 + length MARKDOWN_TLDRAW_END_MARKER) example_markdown = '' outro''"
    by code_simp
  have 9: "fst (tldrawWrite ?P ?fs ''n.md'' (Object example_doc))
       = Inr ''Successfully wrote: n.md''"
    by code_simp
  from embedded_write_preserves_surroundings
         [where fs="?fs" and fp="''/r/n.md''" and c="Object example_doc", OF 1 2 3 4 5 6] 9
  obtain mid where "tldrawWrite ?P ?fs ''n.md'' (Object example_doc) =
             (Inr (''Successfully wrote: '' @ ''n.md''),
              ?fs(''/r/n.md'' \<mapsto> File (take 6 example_markdown @ MARKDOWN_TLDRAW_START_MARKER
                               @ mid @ MARKDOWN_TLDRAW_END_MARKER
                               @ drop (128 + length MARKDOWN_TLDRAW_END_MARKER) example_markdown)))"
    by auto
  then have "snd (tldrawWrite ?P ?fs ''n.md'' (Object example_doc)) ''/r/n.md''
         = Some (File (''intro '' @ MARKDOWN_TLDRAW_START_MARKER @ mid
                        @ MARKDOWN_TLDRAW_END_MARKER @ '' outro''))"
    unfolding 7 8 by simp
  then have 10: "\<exists>mid. snd (tldrawWrite ?P ?fs ''n.md'' (Object example_doc)) ''/r/n.md''
         = Some (File (''intro '' @ MARKDOWN_TLDRAW_START_MARKER @ mid
                        @ MARKDOWN_TLDRAW_END_MARKER @ '' outro''))"
    by blast
  show ?thesis using 1 2 4 5 6 7 8 9 10 by (intro conjI)
qed

subsection \<open>The concrete JSON codec\<close>

text \<open>The parser of the concrete platform reads back what its printer wrote: for every
  value without a repeated key, \<open>json_parse (json_stringify v) = Some v\<close>.\<close>

lemma hexValue_hexDigit_upto: "\<forall>n \<in> set [0..<16]. hexValue (hexDigit n) = Some n"
  by code_simp

lemma hexValue_hexDigit: "n < 16 \<Longrightarrow> hexValue (hexDigit n) = Some n"
  using hexValue_hexDigit_upto by simp

lemma hex_escape:
  assumes "(of_char c :: nat) < 32"
  shows "hexNumber 0 [CHR ''0'', CHR ''0'', hexDigit (of_char c div 16), hexDigit (of_char c)]
           = Some (of_char c)"
proof -
  have a: "of_char c div 16 < (16 :: nat)" using assms by simp
  have "hexDigit (of_char c) = hexDigit (of_char c mod 16)" by (simp add: hexDigit_def)
  then have b: "hexValue (hexDigit (of_char c)) = Some (of_char c mod 16)"
    using hexValue_hexDigit[of "of_char c mod 16"] by simp
  have z: "hexValue CHR ''0'' = Some 0" by (simp add: hexValue_def)
  show ?thesis
    by (simp add: z hexValue_hexDigit[OF a] b)
qed

lemma parse_chars_escape:
  assumes "rest \<noteq> []"
  shows "parse_chars acc (escapeChar c @ rest) = parse_chars (c # acc) rest"
proof -
  obtain e cs where r: "rest = e # cs" using assms by (cases rest) auto
  consider (q) "c = CHR 0x22" | (b) "c = CHR 0x5C" | (c1) "c = CHR 0x08" | (c2) "c = CHR 0x0C"
    | (c3) "c = CHR 0x0A" | (c4) "c = CHR 0x0D" | (c5) "c = CHR 0x09"
    | (u) "c \<noteq> CHR 0x22" "c \<noteq> CHR 0x5C" "c \<noteq> CHR 0x08" "c \<noteq> CHR 0x0C" "c \<noteq> CHR 0x0A"
          "c \<noteq> CHR 0x0D" "c \<noteq> CHR 0x09" "(of_char c :: nat) < 32"
    | (p) "c \<noteq> CHR 0x22" "c \<noteq> CHR 0x5C" "c \<noteq> CHR 0x08" "c \<noteq> CHR 0x0C" "c \<noteq> CHR 0x0A"
          "c \<noteq> CHR 0x0D" "c \<noteq> CHR 0x09" "\<not> (of_char c :: nat) < 32"
    by (cases "(of_char c :: nat) < 32") auto
  then show ?thesis
  proof cases
    case q then show ?thesis by (simp add: escapeChar_def unescape_def r)
  next
    case b then show ?thesis by (simp add: escapeChar_def unescape_def r)
  next
    case c1 then show ?thesis by (simp add: escapeChar_def unescape_def r)
  next
    case c2 then show ?thesis by (simp add: escapeChar_def unescape_def r)
  next
    case c3 then show ?thesis by (simp add: escapeChar_def unescape_def r)
  next
    case c4 then show ?thesis by (simp add: escapeChar_def unescape_def r)
  next
    case c5 then show ?thesis by (simp add: escapeChar_def unescape_def r)
  next
    case u
    have e: "escapeChar c = [CHR 0x5C, CHR ''u'', CHR ''0'', CHR ''0'',
              hexDigit (of_char c div 16), hexDigit (of_char c)]"
      using u by (simp add: escapeChar_def)
    have lt: "(of_char c :: nat) < 256" using u(8) by simp
    show ?thesis
      unfolding e using hex_escape[OF u(8)] lt by (simp add: r)
  next
    case p
    then show ?thesis by (simp add: escapeChar_def r)
  qed
qed

lemma parse_chars_quote:
  "parse_chars acc (concat (map escapeChar s) @ CHR 0x22 # rest) = Some (rev acc @ s, rest)"
proof (induction s arbitrary: acc)
  case Nil
  then show ?case by (cases rest) simp_all
next
  case (Cons c s)
  have "parse_chars acc (escapeChar c @ (concat (map escapeChar s) @ CHR 0x22 # rest))
          = parse_chars (c # acc) (concat (map escapeChar s) @ CHR 0x22 # rest)"
    by (rule parse_chars_escape) simp
  then show ?case using Cons.IH[of "c # acc"] by simp
qed

lemma of_char_digit: "k < 10 \<Longrightarrow> (of_char (char_of (48 + k :: nat)) :: nat) = 48 + k"
  by simp

lemma isDigit_digit: "k < 10 \<Longrightarrow> isDigit (char_of (48 + k :: nat))"
  by (simp add: isDigit_def)

lemma digits_nonempty: "digits n \<noteq> []"
  by (subst digits.simps) simp

lemma digits_isDigit: "c \<in> set (digits n) \<Longrightarrow> isDigit c"
proof (induction n rule: digits.induct)
  case (1 n)
  show ?case
  proof (cases "n < 10")
    case True
    with "1.prems" show ?thesis
      by (subst (asm) digits.simps) (simp add: isDigit_digit)
  next
    case False
    with "1.prems" have "c \<in> set (digits (n div 10)) \<or> c = char_of (48 + n mod 10)"
      by (subst (asm) digits.simps) auto
    then show ?thesis using "1.IH"[OF False] isDigit_digit[of "n mod 10"] by auto
  qed
qed

lemma digitsValue_append:
  "digitsValue acc (xs @ ys) = digitsValue (digitsValue acc xs) ys"
  by (induction xs arbitrary: acc) simp_all

lemma digitsValue_digits: "digitsValue 0 (digits n) = n"
proof (induction n rule: digits.induct)
  case (1 n)
  show ?case
  proof (cases "n < 10")
    case True
    then show ?thesis by (subst digits.simps) simp
  next
    case False
    have "digitsValue 0 (digits n)
            = digitsValue (digitsValue 0 (digits (n div 10))) [char_of (48 + n mod 10)]"
      using False by (subst digits.simps) (simp add: digitsValue_append)
    also have "\<dots> = 10 * (n div 10) + n mod 10"
      using "1.IH"[OF False] by simp
    finally show ?thesis by simp
  qed
qed

lemma digits_no_leading_zero: "1 < length (digits n) \<Longrightarrow> hd (digits n) \<noteq> CHR ''0''"
proof (induction n rule: digits.induct)
  case (1 n)
  show ?case
  proof (cases "n < 10")
    case True
    with "1.prems" show ?thesis by (subst (asm) digits.simps) simp
  next
    case False
    then have d: "digits n = digits (n div 10) @ [char_of (48 + n mod 10)]"
      by (subst digits.simps) simp
    then have h: "hd (digits n) = hd (digits (n div 10))"
      using digits_nonempty[of "n div 10"] by simp
    show ?thesis
    proof (cases "n div 10 < 10")
      case True
      have pos: "0 < n div 10" using False by simp
      have "digits (n div 10) = [char_of (48 + n div 10)]"
        using True by (subst digits.simps) simp
      moreover have "char_of (48 + n div 10) \<noteq> CHR ''0''"
      proof
        assume "char_of (48 + n div 10) = CHR ''0''"
        then have "(of_char (char_of (48 + n div 10)) :: nat) = of_char CHR ''0''" by simp
        then show False using True pos by simp
      qed
      ultimately show ?thesis using h by simp
    next
      case F2: False
      have "1 < length (digits (n div 10))"
        using F2 digits_nonempty[of "n div 10 div 10"]
        by (subst digits.simps) (simp add: Suc_lessI)
      from "1.IH"[OF False this] h show ?thesis by simp
    qed
  qed
qed

lemma takeWhile_digits:
  assumes "rest = [] \<or> \<not> isDigit (hd rest)"
  shows "takeWhile isDigit (digits n @ rest) = digits n"
    and "dropWhile isDigit (digits n @ rest) = rest"
proof -
  have a: "\<forall>c \<in> set (digits n). isDigit c" using digits_isDigit by blast
  have t: "takeWhile isDigit rest = []" using assms by (cases rest) auto
  have d: "dropWhile isDigit rest = rest" using assms by (cases rest) auto
  show "takeWhile isDigit (digits n @ rest) = digits n"
    using a t by (simp add: takeWhile_append2)
  show "dropWhile isDigit (digits n @ rest) = rest"
    using a d by (simp add: dropWhile_append2)
qed

lemma hd_digits_isDigit: "isDigit (hd (digits n))"
  using digits_isDigit[of "hd (digits n)" n] digits_nonempty[of n] by simp

lemma parse_number_show_int:
  assumes "number_follow rest"
  shows "parse_number (show_int i @ rest) = Some (JNum i, rest)"
proof -
  from assms have r1: "rest = [] \<or> \<not> isDigit (hd rest)" by (auto simp: number_follow_def)
  from assms have r2: "\<not> (rest \<noteq> [] \<and> hd rest \<in> set [CHR ''.'', CHR ''e'', CHR ''E''])"
    by (auto simp: number_follow_def)
  show ?thesis
  proof (cases "i < 0")
    case True
    let ?n = "nat (- i)"
    have s: "show_int i @ rest = CHR ''-'' # (digits ?n @ rest)"
      using True by (simp add: show_int_def)
    have v: "- int (digitsValue 0 (digits ?n)) = i"
      using True by (simp add: digitsValue_digits)
    show ?thesis
      unfolding s parse_number_def
      using takeWhile_digits[OF r1, of ?n] digits_nonempty[of ?n]
        digits_no_leading_zero[of ?n] r2 v
      by (simp add: Let_def)
  next
    case False
    let ?n = "nat i"
    have s: "show_int i @ rest = digits ?n @ rest"
      using False by (simp add: show_int_def)
    have nm: "hd (digits ?n @ rest) \<noteq> CHR ''-''"
      using hd_digits_isDigit[of ?n] digits_nonempty[of ?n] by (auto simp: isDigit_def)
    have ne: "digits ?n @ rest \<noteq> []" using digits_nonempty[of ?n] by simp
    have v: "int (digitsValue 0 (digits ?n)) = i"
      using False by (simp add: digitsValue_digits)
    show ?thesis
      unfolding s parse_number_def
      using takeWhile_digits[OF r1, of ?n] digits_nonempty[of ?n]
        digits_no_leading_zero[of ?n] r2 v nm ne
      by (simp add: Let_def)
  qed
qed

lemma value_follow_number: "value_follow rest \<Longrightarrow> number_follow rest"
  by (auto simp: value_follow_def number_follow_def isDigit_def)

lemma skip_ws_append:
  "\<forall>c \<in> set ws. isJsonSpace c \<Longrightarrow> \<not> isJsonSpace c \<Longrightarrow> skip_ws (ws @ c # cs) = c # cs"
  by (induction ws) (simp_all add: skip_ws_def)

lemma skip_ws_all:
  "\<forall>c \<in> set ws. isJsonSpace c \<Longrightarrow> skip_ws ws = []"
  by (induction ws) (simp_all add: skip_ws_def)

lemma space_ws: "isJsonSpace CHR '' ''" "isJsonSpace CHR 0x0A"
  by (simp_all add: isJsonSpace_def)

lemma not_ws:
  "\<not> isJsonSpace CHR ''{''" "\<not> isJsonSpace CHR ''[''" "\<not> isJsonSpace CHR 0x22"
  "\<not> isJsonSpace CHR ''}''" "\<not> isJsonSpace CHR '']''" "\<not> isJsonSpace CHR '',''"
  "\<not> isJsonSpace CHR '':''" "\<not> isJsonSpace CHR ''t''" "\<not> isJsonSpace CHR ''f''"
  "\<not> isJsonSpace CHR ''n''" "\<not> isJsonSpace CHR ''-''"
  by (simp_all add: isJsonSpace_def)

lemma digit_not_ws: "isDigit c \<Longrightarrow> \<not> isJsonSpace c"
  by (auto simp: isDigit_def isJsonSpace_def)

lemma digit_not_special:
  assumes "isDigit c"
  shows "c \<noteq> CHR ''{''" "c \<noteq> CHR ''[''" "c \<noteq> CHR 0x22" "c \<noteq> CHR ''t''" "c \<noteq> CHR ''f''"
    "c \<noteq> CHR ''n''" "c \<noteq> CHR '']''" "c \<noteq> CHR ''}''"
  using assms by (auto simp: isDigit_def)

text \<open>The text of a number begins with a sign or a digit.\<close>

lemma show_int_head:
  "\<exists>c cs. show_int i = c # cs \<and> (c = CHR ''-'' \<or> isDigit c)"
proof (cases "i < 0")
  case True
  then show ?thesis by (simp add: show_int_def)
next
  case False
  obtain c cs where d: "digits (nat i) = c # cs"
    using digits_nonempty[of "nat i"] by (cases "digits (nat i)") auto
  with hd_digits_isDigit[of "nat i"] False show ?thesis by (simp add: show_int_def)
qed

lemma parse_value_leaf_num:
  assumes "\<forall>c \<in> set ws. isJsonSpace c" and "value_follow rest"
  shows "parse_value (Suc n) (ws @ show_int i @ rest) = Some (JNum i, rest)"
proof -
  from show_int_head[of i] obtain c cs where h: "show_int i = c # cs"
    and hc: "c = CHR ''-'' \<or> isDigit c" by blast
  have nws: "\<not> isJsonSpace c" using hc not_ws(11) digit_not_ws by auto
  have sk: "skip_ws (ws @ show_int i @ rest) = c # (cs @ rest)"
    using skip_ws_append[OF assms(1) nws, of "cs @ rest"] h by simp
  have ns: "c \<noteq> CHR ''{''" "c \<noteq> CHR ''[''" "c \<noteq> CHR 0x22" "c \<noteq> CHR ''t''" "c \<noteq> CHR ''f''"
    "c \<noteq> CHR ''n''"
    using hc by (auto simp: isDigit_def)
  have pn: "parse_number (c # (cs @ rest)) = Some (JNum i, rest)"
    using parse_number_show_int[OF value_follow_number[OF assms(2)], of i] h by simp
  show ?thesis using sk ns pn by simp
qed

lemma parse_value_leaf_str:
  assumes "\<forall>c \<in> set ws. isJsonSpace c"
  shows "parse_value (Suc n) (ws @ quote s @ rest) = Some (JStr s, rest)"
proof -
  have sk: "skip_ws (ws @ quote s @ rest)
              = CHR 0x22 # (concat (map escapeChar s) @ CHR 0x22 # rest)"
    using skip_ws_append[OF assms not_ws(3)] by (simp add: quote_def)
  show ?thesis using sk parse_chars_quote[of "[]" s rest] by simp
qed

lemma parse_value_leaf_lit:
  assumes "\<forall>c \<in> set ws. isJsonSpace c"
  shows "parse_value (Suc n) (ws @ ''null'' @ rest) = Some (JNull, rest)"
    and "parse_value (Suc n) (ws @ ''true'' @ rest) = Some (JBool True, rest)"
    and "parse_value (Suc n) (ws @ ''false'' @ rest) = Some (JBool False, rest)"
proof -
  have 1: "skip_ws (ws @ ''null'' @ rest) = ''null'' @ rest"
    using skip_ws_append[OF assms not_ws(10)] by simp
  have 2: "skip_ws (ws @ ''true'' @ rest) = ''true'' @ rest"
    using skip_ws_append[OF assms not_ws(8)] by simp
  have 3: "skip_ws (ws @ ''false'' @ rest) = ''false'' @ rest"
    using skip_ws_append[OF assms not_ws(9)] by simp
  show "parse_value (Suc n) (ws @ ''null'' @ rest) = Some (JNull, rest)"
    using 1 by simp
  show "parse_value (Suc n) (ws @ ''true'' @ rest) = Some (JBool True, rest)"
    using 2 by simp
  show "parse_value (Suc n) (ws @ ''false'' @ rest) = Some (JBool False, rest)"
    using 3 by simp
qed

text \<open>The text of a value begins with a character that is no white space and no
  closing bracket.\<close>

lemma stringify_head:
  "\<exists>c cs. stringify_at ind v = c # cs \<and> \<not> isJsonSpace c \<and> c \<noteq> CHR '']'' \<and> c \<noteq> CHR ''}''"
proof (cases v)
  case (JNum i)
  from show_int_head[of i] obtain c cs where h: "show_int i = c # cs"
    and hc: "c = CHR ''-'' \<or> isDigit c" by blast
  then show ?thesis using JNum not_ws(11) digit_not_ws digit_not_special(7,8) by auto
next
  case (JBool b)
  then show ?thesis using not_ws by (cases b) auto
qed (auto simp: quote_def not_ws)

lemma join_with_Cons:
  "join_with sep (e # es) = (if es = [] then e else e @ sep @ join_with sep es)"
  by (cases es) simp_all

lemma skip_ws_head: "\<not> isJsonSpace c \<Longrightarrow> skip_ws (c # cs) = c # cs"
  by (simp add: skip_ws_def)

lemma spaces_ws: "\<forall>c \<in> set (ws @ replicate k CHR '' ''). isJsonSpace c"
  if "\<forall>c \<in> set ws. isJsonSpace c"
  using that space_ws(1) by auto

text \<open>One element of an array: the fuel \<open>n\<close> serves the element and the rest.\<close>

lemma parse_elems_step:
  assumes P1: "\<And>v ind ws rest. wf_json v \<Longrightarrow> size v < n \<Longrightarrow> \<forall>c \<in> set ws. isJsonSpace c
                 \<Longrightarrow> value_follow rest
                 \<Longrightarrow> parse_value n (ws @ stringify_at ind v @ rest) = Some (v, rest)"
    and P2: "\<And>xs ind ind0 ws acc rest. xs \<noteq> [] \<Longrightarrow> wf_elems xs \<Longrightarrow> size_list size xs < n
                 \<Longrightarrow> \<forall>c \<in> set ws. isJsonSpace c
                 \<Longrightarrow> parse_elems n acc
                       (ws @ join_with ('','' @ [CHR 0x0A]) (stringify_elems ind xs)
                          @ CHR 0x0A # replicate ind0 CHR '' '' @ CHR '']'' # rest)
                     = Some (JArr (rev acc @ xs), rest)"
    and xs: "xs \<noteq> []" "wf_elems xs" "size_list size xs < Suc n"
    and ws: "\<forall>c \<in> set ws. isJsonSpace c"
  shows "parse_elems (Suc n) acc
           (ws @ join_with ('','' @ [CHR 0x0A]) (stringify_elems ind xs)
              @ CHR 0x0A # replicate ind0 CHR '' '' @ CHR '']'' # rest)
         = Some (JArr (rev acc @ xs), rest)"
proof -
  obtain x xs' where c: "xs = x # xs'" using xs(1) by (cases xs) auto
  let ?close = "CHR 0x0A # replicate ind0 CHR '' '' @ CHR '']'' # rest"
  have wx: "wf_json x" and wxs: "wf_elems xs'" using xs(2) c by simp_all
  have sx: "size x < n" and sxs: "size_list size xs' < n" using xs(3) c by simp_all
  have ws': "\<forall>c \<in> set (ws @ replicate ind CHR '' ''). isJsonSpace c"
    by (rule spaces_ws[OF ws])
  have cl: "skip_ws ?close = CHR '']'' # rest"
    using skip_ws_append[of "CHR 0x0A # replicate ind0 CHR '' ''" "CHR '']''" rest]
      space_ws not_ws(5) by simp
  show ?thesis
  proof (cases "xs' = []")
    case True
    have vf: "value_follow ?close" by (simp add: value_follow_def)
    have "parse_value n ((ws @ replicate ind CHR '' '') @ stringify_at ind x @ ?close)
            = Some (x, ?close)"
      by (rule P1[OF wx sx ws' vf])
    then show ?thesis using True c cl by simp
  next
    case False
    let ?R = "CHR '','' # CHR 0x0A # join_with ('','' @ [CHR 0x0A]) (stringify_elems ind xs')
                @ ?close"
    have ne: "stringify_elems ind xs' \<noteq> []" using False by (cases xs') auto
    have vf: "value_follow ?R" by (simp add: value_follow_def)
    have pv: "parse_value n ((ws @ replicate ind CHR '' '') @ stringify_at ind x @ ?R)
            = Some (x, ?R)"
      by (rule P1[OF wx sx ws' vf])
    have sk: "skip_ws ?R = ?R" by (rule skip_ws_head[OF not_ws(6)])
    have nl: "\<forall>c \<in> set [CHR 0x0A]. isJsonSpace c" using space_ws(2) by simp
    have pe: "parse_elems n (x # acc)
                ([CHR 0x0A] @ join_with ('','' @ [CHR 0x0A]) (stringify_elems ind xs') @ ?close)
              = Some (JArr (rev (x # acc) @ xs'), rest)"
      by (rule P2[OF False wxs sxs nl])
    have inp: "ws @ join_with ('','' @ [CHR 0x0A]) (stringify_elems ind xs) @ ?close
                 = (ws @ replicate ind CHR '' '') @ stringify_at ind x @ ?R"
      using c ne by (simp add: join_with_Cons)
    show ?thesis
      unfolding inp parse_elems.simps pv using sk pe c by simp
  qed
qed

lemma obj_set_new:
  "k \<notin> fst ` set kvs \<Longrightarrow> obj_set k v kvs = kvs @ [(k, v)]"
  by (induction kvs) auto

text \<open>One member of an object.\<close>

lemma parse_members_step:
  assumes P1: "\<And>v ind ws rest. wf_json v \<Longrightarrow> size v < n \<Longrightarrow> \<forall>c \<in> set ws. isJsonSpace c
                 \<Longrightarrow> value_follow rest
                 \<Longrightarrow> parse_value n (ws @ stringify_at ind v @ rest) = Some (v, rest)"
    and P3: "\<And>kvs ind ind0 ws acc rest. kvs \<noteq> [] \<Longrightarrow> wf_members kvs
                 \<Longrightarrow> distinct (map fst acc @ map fst kvs)
                 \<Longrightarrow> size_list (size_prod (\<lambda>x. 0) size) kvs < n
                 \<Longrightarrow> \<forall>c \<in> set ws. isJsonSpace c
                 \<Longrightarrow> parse_members n acc
                       (ws @ join_with ('','' @ [CHR 0x0A]) (stringify_members ind kvs)
                          @ CHR 0x0A # replicate ind0 CHR '' '' @ CHR ''}'' # rest)
                     = Some (JObj (acc @ kvs), rest)"
    and kvs: "kvs \<noteq> []" "wf_members kvs" "distinct (map fst acc @ map fst kvs)"
      "size_list (size_prod (\<lambda>x. 0) size) kvs < Suc n"
    and ws: "\<forall>c \<in> set ws. isJsonSpace c"
  shows "parse_members (Suc n) acc
           (ws @ join_with ('','' @ [CHR 0x0A]) (stringify_members ind kvs)
              @ CHR 0x0A # replicate ind0 CHR '' '' @ CHR ''}'' # rest)
         = Some (JObj (acc @ kvs), rest)"
proof -
  obtain k v kvs' where c: "kvs = (k, v) # kvs'" using kvs(1) by (cases kvs) auto
  let ?close = "CHR 0x0A # replicate ind0 CHR '' '' @ CHR ''}'' # rest"
  have wv: "wf_json v" and wk: "wf_members kvs'" using kvs(2) c by simp_all
  have sv: "size v < n" and sk: "size_list (size_prod (\<lambda>x. 0) size) kvs' < n"
    using kvs(4) c by simp_all
  have nk: "k \<notin> fst ` set acc" using kvs(3) c by auto
  have os: "obj_set k v acc = acc @ [(k, v)]" by (rule obj_set_new[OF nk])
  have d': "distinct (map fst (acc @ [(k, v)]) @ map fst kvs')" using kvs(3) c by auto
  have ws': "\<forall>c \<in> set (ws @ replicate ind CHR '' ''). isJsonSpace c"
    by (rule spaces_ws[OF ws])
  have sp: "\<forall>c \<in> set [CHR '' '']. isJsonSpace c" using space_ws(1) by simp
  have cl: "skip_ws ?close = CHR ''}'' # rest"
    using skip_ws_append[of "CHR 0x0A # replicate ind0 CHR '' ''" "CHR ''}''" rest]
      space_ws not_ws(4) by simp
  have key: "\<And>R. skip_ws ((ws @ replicate ind CHR '' '') @ quote k @ '': '' @ stringify_at ind v @ R)
               = CHR 0x22 # (concat (map escapeChar k)
                   @ CHR 0x22 # (CHR '':'' # CHR '' '' # stringify_at ind v @ R))"
    using skip_ws_append[OF ws' not_ws(3)] by (simp add: quote_def)
  have pc: "\<And>R. parse_chars [] (concat (map escapeChar k)
                   @ CHR 0x22 # (CHR '':'' # CHR '' '' # stringify_at ind v @ R))
              = Some (k, CHR '':'' # CHR '' '' # stringify_at ind v @ R)"
    using parse_chars_quote[of "[]" k] by simp
  have colon: "\<And>R. skip_ws (CHR '':'' # CHR '' '' # stringify_at ind v @ R)
                 = CHR '':'' # CHR '' '' # stringify_at ind v @ R"
    by (rule skip_ws_head[OF not_ws(7)])
  show ?thesis
  proof (cases "kvs' = []")
    case True
    have vf: "value_follow ?close" by (simp add: value_follow_def)
    have pv: "parse_value n ([CHR '' ''] @ stringify_at ind v @ ?close) = Some (v, ?close)"
      by (rule P1[OF wv sv sp vf])
    have inp: "ws @ join_with ('','' @ [CHR 0x0A]) (stringify_members ind kvs) @ ?close
                 = (ws @ replicate ind CHR '' '') @ quote k @ '': '' @ stringify_at ind v @ ?close"
      using c True by simp
    show ?thesis
      unfolding inp parse_members.simps key
      using pv cl os c True by (simp add: pc colon)
  next
    case False
    let ?R = "CHR '','' # CHR 0x0A # join_with ('','' @ [CHR 0x0A]) (stringify_members ind kvs')
                @ ?close"
    have ne: "stringify_members ind kvs' \<noteq> []" using False by (cases kvs') auto
    have vf: "value_follow ?R" by (simp add: value_follow_def)
    have pv: "parse_value n ([CHR '' ''] @ stringify_at ind v @ ?R) = Some (v, ?R)"
      by (rule P1[OF wv sv sp vf])
    have skr: "skip_ws ?R = ?R" by (rule skip_ws_head[OF not_ws(6)])
    have nl: "\<forall>c \<in> set [CHR 0x0A]. isJsonSpace c" using space_ws(2) by simp
    have pm: "parse_members n (acc @ [(k, v)])
                ([CHR 0x0A] @ join_with ('','' @ [CHR 0x0A]) (stringify_members ind kvs') @ ?close)
              = Some (JObj ((acc @ [(k, v)]) @ kvs'), rest)"
      by (rule P3[OF False wk d' sk nl])
    have inp: "ws @ join_with ('','' @ [CHR 0x0A]) (stringify_members ind kvs) @ ?close
                 = (ws @ replicate ind CHR '' '') @ quote k @ '': '' @ stringify_at ind v @ ?R"
      using c ne by (simp add: join_with_Cons)
    show ?thesis
      unfolding inp parse_members.simps key
      using pv skr pm os c by (simp add: pc colon)
  qed
qed

text \<open>The first line of a printed array or object, after the line feed.\<close>

lemma elems_head:
  assumes "xs \<noteq> []"
  shows "\<exists>c t. join_with sep (stringify_elems ind xs) = replicate ind CHR '' '' @ c # t
           \<and> \<not> isJsonSpace c \<and> c \<noteq> CHR '']''"
proof -
  obtain x xs' where c: "xs = x # xs'" using assms by (cases xs) auto
  from stringify_head[of ind x] obtain c0 cs where h: "stringify_at ind x = c0 # cs"
    "\<not> isJsonSpace c0" "c0 \<noteq> CHR '']''" by blast
  show ?thesis using c h by (auto simp: join_with_Cons)
qed

lemma members_head:
  assumes "kvs \<noteq> []"
  shows "\<exists>t. join_with sep (stringify_members ind kvs) = replicate ind CHR '' '' @ CHR 0x22 # t"
proof -
  obtain kv kvs' where c: "kvs = kv # kvs'" using assms by (cases kvs) auto
  show ?thesis using c by (auto simp: join_with_Cons quote_def)
qed

lemma parse_value_step:
  assumes P2: "\<And>xs ind ind0 ws acc rest. xs \<noteq> [] \<Longrightarrow> wf_elems xs \<Longrightarrow> size_list size xs < n
                 \<Longrightarrow> \<forall>c \<in> set ws. isJsonSpace c
                 \<Longrightarrow> parse_elems n acc
                       (ws @ join_with ('','' @ [CHR 0x0A]) (stringify_elems ind xs)
                          @ CHR 0x0A # replicate ind0 CHR '' '' @ CHR '']'' # rest)
                     = Some (JArr (rev acc @ xs), rest)"
    and P3: "\<And>kvs ind ind0 ws acc rest. kvs \<noteq> [] \<Longrightarrow> wf_members kvs
                 \<Longrightarrow> distinct (map fst acc @ map fst kvs)
                 \<Longrightarrow> size_list (size_prod (\<lambda>x. 0) size) kvs < n
                 \<Longrightarrow> \<forall>c \<in> set ws. isJsonSpace c
                 \<Longrightarrow> parse_members n acc
                       (ws @ join_with ('','' @ [CHR 0x0A]) (stringify_members ind kvs)
                          @ CHR 0x0A # replicate ind0 CHR '' '' @ CHR ''}'' # rest)
                     = Some (JObj (acc @ kvs), rest)"
    and v: "wf_json v" "size v < Suc n"
    and ws: "\<forall>c \<in> set ws. isJsonSpace c"
    and vf: "value_follow rest"
  shows "parse_value (Suc n) (ws @ stringify_at ind v @ rest) = Some (v, rest)"
proof (cases v)
  case JNull
  then show ?thesis using parse_value_leaf_lit(1)[OF ws] by simp
next
  case (JBool b)
  then show ?thesis using parse_value_leaf_lit(2,3)[OF ws] by (cases b) simp_all
next
  case (JNum i)
  then show ?thesis using parse_value_leaf_num[OF ws vf] by simp
next
  case (JStr s)
  then show ?thesis using parse_value_leaf_str[OF ws] by simp
next
  case (JArr xs)
  show ?thesis
  proof (cases "xs = []")
    case True
    have sk: "skip_ws (ws @ CHR ''['' # CHR '']'' # rest) = CHR ''['' # CHR '']'' # rest"
      by (rule skip_ws_append[OF ws not_ws(2)])
    have sk2: "skip_ws (CHR '']'' # rest) = CHR '']'' # rest"
      by (rule skip_ws_head[OF not_ws(5)])
    show ?thesis using JArr True sk sk2 by simp
  next
    case False
    let ?body = "join_with ('','' @ [CHR 0x0A]) (stringify_elems (ind + 2) xs)
                   @ CHR 0x0A # replicate ind CHR '' '' @ CHR '']'' # rest"
    have inp: "ws @ stringify_at ind v @ rest = ws @ CHR ''['' # CHR 0x0A # ?body"
      using JArr False by simp
    have sk: "skip_ws (ws @ CHR ''['' # CHR 0x0A # ?body) = CHR ''['' # CHR 0x0A # ?body"
      by (rule skip_ws_append[OF ws not_ws(2)])
    from elems_head[OF False, of "'','' @ [CHR 0x0A]" "ind + 2"]
    obtain c t where h: "join_with ('','' @ [CHR 0x0A]) (stringify_elems (ind + 2) xs)
          = replicate (ind + 2) CHR '' '' @ c # t" "\<not> isJsonSpace c" "c \<noteq> CHR '']''"
      by blast
    have "skip_ws ((CHR 0x0A # replicate (ind + 2) CHR '' '')
                     @ c # (t @ CHR 0x0A # replicate ind CHR '' '' @ CHR '']'' # rest))
            = c # (t @ CHR 0x0A # replicate ind CHR '' '' @ CHR '']'' # rest)"
      by (rule skip_ws_append[OF _ h(2)]) (use space_ws in auto)
    then have sk2: "skip_ws (CHR 0x0A # ?body)
            = c # (t @ CHR 0x0A # replicate ind CHR '' '' @ CHR '']'' # rest)"
      using h(1) by simp
    have we: "wf_elems xs" and se: "size_list size xs < n" using v JArr by simp_all
    have nl: "\<forall>c \<in> set [CHR 0x0A]. isJsonSpace c" using space_ws(2) by simp
    have pe: "parse_elems n [] ([CHR 0x0A] @ ?body) = Some (JArr (rev [] @ xs), rest)"
      by (rule P2[OF False we se nl])
    show ?thesis
      unfolding inp parse_value.simps sk
      using sk2 h(3) pe JArr by simp
  qed
next
  case (JObj kvs)
  show ?thesis
  proof (cases "kvs = []")
    case True
    have sk: "skip_ws (ws @ CHR ''{'' # CHR ''}'' # rest) = CHR ''{'' # CHR ''}'' # rest"
      by (rule skip_ws_append[OF ws not_ws(1)])
    have sk2: "skip_ws (CHR ''}'' # rest) = CHR ''}'' # rest"
      by (rule skip_ws_head[OF not_ws(4)])
    show ?thesis using JObj True sk sk2 by simp
  next
    case False
    let ?body = "join_with ('','' @ [CHR 0x0A]) (stringify_members (ind + 2) kvs)
                   @ CHR 0x0A # replicate ind CHR '' '' @ CHR ''}'' # rest"
    have inp: "ws @ stringify_at ind v @ rest = ws @ CHR ''{'' # CHR 0x0A # ?body"
      using JObj False by simp
    have sk: "skip_ws (ws @ CHR ''{'' # CHR 0x0A # ?body) = CHR ''{'' # CHR 0x0A # ?body"
      by (rule skip_ws_append[OF ws not_ws(1)])
    from members_head[OF False, of "'','' @ [CHR 0x0A]" "ind + 2"]
    obtain t where h: "join_with ('','' @ [CHR 0x0A]) (stringify_members (ind + 2) kvs)
          = replicate (ind + 2) CHR '' '' @ CHR 0x22 # t"
      by blast
    have "skip_ws ((CHR 0x0A # replicate (ind + 2) CHR '' '')
                     @ CHR 0x22 # (t @ CHR 0x0A # replicate ind CHR '' '' @ CHR ''}'' # rest))
            = CHR 0x22 # (t @ CHR 0x0A # replicate ind CHR '' '' @ CHR ''}'' # rest)"
      by (rule skip_ws_append[OF _ not_ws(3)]) (use space_ws in auto)
    then have sk2: "skip_ws (CHR 0x0A # ?body)
            = CHR 0x22 # (t @ CHR 0x0A # replicate ind CHR '' '' @ CHR ''}'' # rest)"
      using h by simp
    have wm: "wf_members kvs" and d: "distinct (map fst [] @ map fst kvs)"
      and sm: "size_list (size_prod (\<lambda>x. 0) size) kvs < n" using v JObj by simp_all
    have nl: "\<forall>c \<in> set [CHR 0x0A]. isJsonSpace c" using space_ws(2) by simp
    have pm: "parse_members n [] ([CHR 0x0A] @ ?body) = Some (JObj ([] @ kvs), rest)"
      by (rule P3[OF False wm d sm nl])
    show ?thesis
      unfolding inp parse_value.simps sk
      using sk2 pm JObj by simp
  qed
qed

text \<open>All three parsers at once, by induction on the fuel.\<close>

lemma parse_stringify:
  "(\<forall>v ind ws rest. wf_json v \<longrightarrow> size v < n \<longrightarrow> (\<forall>c \<in> set ws. isJsonSpace c)
       \<longrightarrow> value_follow rest
       \<longrightarrow> parse_value n (ws @ stringify_at ind v @ rest) = Some (v, rest))
   \<and> (\<forall>xs ind ind0 ws acc rest. xs \<noteq> [] \<longrightarrow> wf_elems xs \<longrightarrow> size_list size xs < n
       \<longrightarrow> (\<forall>c \<in> set ws. isJsonSpace c)
       \<longrightarrow> parse_elems n acc
             (ws @ join_with ('','' @ [CHR 0x0A]) (stringify_elems ind xs)
                @ CHR 0x0A # replicate ind0 CHR '' '' @ CHR '']'' # rest)
           = Some (JArr (rev acc @ xs), rest))
   \<and> (\<forall>kvs ind ind0 ws acc rest. kvs \<noteq> [] \<longrightarrow> wf_members kvs
       \<longrightarrow> distinct (map fst acc @ map fst kvs)
       \<longrightarrow> size_list (size_prod (\<lambda>x. 0) size) kvs < n
       \<longrightarrow> (\<forall>c \<in> set ws. isJsonSpace c)
       \<longrightarrow> parse_members n acc
             (ws @ join_with ('','' @ [CHR 0x0A]) (stringify_members ind kvs)
                @ CHR 0x0A # replicate ind0 CHR '' '' @ CHR ''}'' # rest)
           = Some (JObj (acc @ kvs), rest))"
proof (induction n)
  case 0
  then show ?case by simp
next
  case (Suc n)
  from Suc.IH have P1: "\<And>v ind ws rest. wf_json v \<Longrightarrow> size v < n \<Longrightarrow> \<forall>c \<in> set ws. isJsonSpace c
                 \<Longrightarrow> value_follow rest
                 \<Longrightarrow> parse_value n (ws @ stringify_at ind v @ rest) = Some (v, rest)"
    by blast
  from Suc.IH have P2: "\<And>xs ind ind0 ws acc rest. xs \<noteq> [] \<Longrightarrow> wf_elems xs
                 \<Longrightarrow> size_list size xs < n
                 \<Longrightarrow> \<forall>c \<in> set ws. isJsonSpace c
                 \<Longrightarrow> parse_elems n acc
                       (ws @ join_with ('','' @ [CHR 0x0A]) (stringify_elems ind xs)
                          @ CHR 0x0A # replicate ind0 CHR '' '' @ CHR '']'' # rest)
                     = Some (JArr (rev acc @ xs), rest)"
    by blast
  from Suc.IH have P3: "\<And>kvs ind ind0 ws acc rest. kvs \<noteq> [] \<Longrightarrow> wf_members kvs
                 \<Longrightarrow> distinct (map fst acc @ map fst kvs)
                 \<Longrightarrow> size_list (size_prod (\<lambda>x. 0) size) kvs < n
                 \<Longrightarrow> \<forall>c \<in> set ws. isJsonSpace c
                 \<Longrightarrow> parse_members n acc
                       (ws @ join_with ('','' @ [CHR 0x0A]) (stringify_members ind kvs)
                          @ CHR 0x0A # replicate ind0 CHR '' '' @ CHR ''}'' # rest)
                     = Some (JObj (acc @ kvs), rest)"
    by blast
  show ?case
  proof (intro conjI allI impI)
    fix v ind ws rest
    assume a: "wf_json v" "size v < Suc n" "\<forall>c \<in> set ws. isJsonSpace c" "value_follow rest"
    show "parse_value (Suc n) (ws @ stringify_at ind v @ rest) = Some (v, rest)"
      apply (rule parse_value_step[where n=n])
      subgoal by (rule P2)
      subgoal by (rule P3)
      by (fact a)+
  next
    fix xs ind ind0 ws acc rest
    assume a: "xs \<noteq> []" "wf_elems xs" "size_list size xs < Suc n"
      "\<forall>c \<in> set ws. isJsonSpace c"
    show "parse_elems (Suc n) acc
             (ws @ join_with ('','' @ [CHR 0x0A]) (stringify_elems ind xs)
                @ CHR 0x0A # replicate ind0 CHR '' '' @ CHR '']'' # rest)
           = Some (JArr (rev acc @ xs), rest)"
      apply (rule parse_elems_step[where n=n])
      subgoal by (rule P1)
      subgoal by (rule P2)
      by (fact a)+
  next
    fix kvs ind ind0 ws rest and acc :: "(string \<times> json) list"
    assume a: "kvs \<noteq> []" "wf_members kvs" "distinct (map fst acc @ map fst kvs)"
      "size_list (size_prod (\<lambda>x. 0) size) kvs < Suc n" "\<forall>c \<in> set ws. isJsonSpace c"
    show "parse_members (Suc n) acc
             (ws @ join_with ('','' @ [CHR 0x0A]) (stringify_members ind kvs)
                @ CHR 0x0A # replicate ind0 CHR '' '' @ CHR ''}'' # rest)
           = Some (JObj (acc @ kvs), rest)"
      apply (rule parse_members_step[where n=n])
      subgoal by (rule P1)
      subgoal by (rule P3)
      by (fact a)+
  qed
qed

text \<open>The fuel that \<open>json_parse\<close> gives is enough: a value is smaller than its text.\<close>

lemma stringify_elems_Nil [simp]: "stringify_elems ind xs = [] \<longleftrightarrow> xs = []"
  by (cases xs) simp_all

lemma stringify_members_Nil [simp]: "stringify_members ind kvs = [] \<longleftrightarrow> kvs = []"
  by (cases kvs) simp_all

lemma size_stringify:
  "size v < length (stringify_at ind v)"
  "size_list size xs \<le> length (join_with ('','' @ [CHR 0x0A]) (stringify_elems ind xs))"
  "size_list (size_prod (\<lambda>x. 0) size) kvs
     \<le> length (join_with ('','' @ [CHR 0x0A]) (stringify_members ind kvs))"
proof (induction ind v and ind xs and ind kvs
    rule: stringify_at_stringify_elems_stringify_members.induct)
  case (3 ind n)
  from show_int_head[of n] show ?case by auto
next
  case (4 ind s)
  then show ?case by (simp add: quote_def)
next
  case (5 ind xs)
  then show ?case by (cases "xs = []") (simp_all add: le_imp_less_Suc)
next
  case (6 ind kvs)
  then show ?case by (cases "kvs = []") (simp_all add: le_imp_less_Suc)
next
  case (8 ind x xs)
  then show ?case by (simp add: join_with_Cons)
next
  case (10 ind kv kvs)
  then show ?case by (cases kv) (simp add: join_with_Cons)
qed simp_all

theorem json_text_roundtrip:
  assumes "wf_json v"
  shows "json_parse (json_stringify v) = Some v"
proof -
  have s: "size v < 2 * length (stringify_at 0 v) + 2"
    using size_stringify(1)[of v 0] by simp
  have vf: "value_follow []" by (simp add: value_follow_def)
  from parse_stringify[of "2 * length (stringify_at 0 v) + 2"] assms s vf
  have "parse_value (2 * length (stringify_at 0 v) + 2) ([] @ stringify_at 0 v @ [])
          = Some (v, [])"
    by (metis empty_iff set_empty2)
  then show ?thesis
    by (simp add: json_parse_def json_stringify_def skip_ws_def)
qed

text \<open>So the concrete platform satisfies the hypothesis on \<^verbatim>\<open>JSON.parse\<close> and
  \<^verbatim>\<open>JSON.stringify\<close> that the properties of a written document file are stated under.\<close>

lemma posix_json_roundtrip:
  assumes "wf_json v"
  shows "JSON_parse (posix cwd dir) (JSON_stringify (posix cwd dir) v) = Some v"
  using json_text_roundtrip[OF assms] by (simp add: posix_def)

text \<open>The own keys that an object spread copies are distinct: the indices of an array or
  a string print to different keys, and an object has each key once. So the one-level
  merge of \<^verbatim>\<open>props\<close> is described for every new \<^verbatim>\<open>props\<close> of type object.\<close>

lemma digits_inject: "digits a = digits b \<Longrightarrow> a = b"
  by (metis digitsValue_digits)

lemma distinct_index_keys: "distinct (map digits [0..<n])"
  by (simp add: distinct_map inj_on_def) (blast dest: digits_inject)

lemma spread_keys_distinct:
  "distinct (map fst (spread JNull))"
  "distinct (map fst (spread (JArr xs)))"
  "distinct (map fst (spread (JStr s)))"
  "distinct (map fst kvs) \<Longrightarrow> distinct (map fst (spread (JObj kvs)))"
  using distinct_index_keys by (simp_all add: map_fst_zip)

end
